theory Spec2Isabelle
  imports Main "HOL-Library.Word"
begin

section \<open>Data model of \<^verbatim>\<open>main.go\<close>\<close>

text \<open>
  Go strings are byte sequences; \<^typ>\<open>string\<close> is a list of 8-bit characters, so
  \<^verbatim>\<open>s == ""\<close> is \<open>s = []\<close>, \<^verbatim>\<open>len(s)\<close> is \<open>length s\<close> and \<^verbatim>\<open>s[0]\<close> is the
  first byte. A Go \<^verbatim>\<open>byte\<close> is an \<open>8 word\<close>.

  Go errors are values. The seven package-level errors of \<^verbatim>\<open>main.go\<close> are kept as
  constructors of their own; \<open>EOF\<close> is \<^verbatim>\<open>io.EOF\<close>; every other error (of the TLS, IRC,
  JSON and MQTT libraries or of the operating system) is \<open>Other\<close> with its text.
\<close>

datatype error =
    errEmptyNick
  | errEmptyPass
  | errNonOauthPass
  | errBadTopics
  | errBadQOS
  | errChannelsNoTopic
  | errEmptyChannel
  | EOF
  | Other string

text \<open>
  \<^verbatim>\<open>type Connection struct\<close>. The two anonymous nested structs \<^verbatim>\<open>Publish\<close> and
  \<^verbatim>\<open>Subscribe\<close> are flattened: \<open>Publish_Topic c\<close> is \<^verbatim>\<open>c.Publish.Topic\<close>.
\<close>

record Connection =
  Nick :: string
  Pass :: string
  Publish_Topic :: string
  Publish_QOS :: "8 word"
  Publish_Channels :: "string list"
  Subscribe_Topic :: string
  Subscribe_QOS :: "8 word"

text \<open>\<^verbatim>\<open>strings.HasPrefix(s, prefix)\<close>:
  \<^verbatim>\<open>len(s) >= len(prefix) && s[0:len(prefix)] == prefix\<close>.\<close>

definition HasPrefix :: "string \<Rightarrow> string \<Rightarrow> bool" where
  "HasPrefix s pre = (length pre \<le> length s \<and> take (length pre) s = pre)"

section \<open>Config validation\<close>

text \<open>The \<^verbatim>\<open>for _, s := range c.Publish.Channels\<close> loop that ends \<^verbatim>\<open>validate\<close>:
  the first empty name returns \<^verbatim>\<open>errEmptyChannel\<close>, no empty name returns \<^verbatim>\<open>nil\<close>.\<close>

fun validate_channels :: "string list \<Rightarrow> error option" where
  "validate_channels [] = None"
| "validate_channels (s # ss) = (if s = [] then Some errEmptyChannel else validate_channels ss)"

text \<open>\<^verbatim>\<open>func (c *Connection) validate() error\<close>, the checks in the source's order;
  \<open>None\<close> is \<^verbatim>\<open>nil\<close>.\<close>

definition validate :: "Connection \<Rightarrow> error option" where
  "validate c =
    (if Nick c = [] then Some errEmptyNick
     else if Pass c = [] then Some errEmptyPass
     else if \<not> HasPrefix (Pass c) ''oauth:'' then Some errNonOauthPass
     else if Publish_Topic c = Subscribe_Topic c then Some errBadTopics
     else if 0 < length (Publish_Channels c) \<and> Publish_Topic c = [] then Some errChannelsNoTopic
     else if 2 < Publish_QOS c \<or> 2 < Subscribe_QOS c then Some errBadQOS
     else validate_channels (Publish_Channels c))"

section \<open>Chat messages, events and the environment\<close>

text \<open>
  Modelled from the spec: the declaration of \<^verbatim>\<open>irc.Message\<close> (a type of the IRC
  library, not declared in \<^verbatim>\<open>main.go\<close>). The spec's Chat Message has a command token,
  an ordered list of parameters, a trailing free-text argument and the raw original line;
  these are the four fields \<^verbatim>\<open>main.go\<close> reads or writes.
\<close>

record irc_Message =
  Raw :: string
  Command :: string
  Params :: "string list"
  Trailing :: string

text \<open>The anonymous struct \<^verbatim>\<open>msg\<close> of the subscribe callback (the Broker Envelope).\<close>

record envelope =
  Channel :: string
  Message :: string

text \<open>
  The package-level variables the connection code reads: \<^verbatim>\<open>args.Debug\<close>, and
  \<^verbatim>\<open>argv0\<close>, \<^verbatim>\<open>argv\<close>, \<^verbatim>\<open>envv\<close>, which are set once, when the program starts, from
  \<^verbatim>\<open>os.Args[0]\<close>, \<^verbatim>\<open>os.Args\<close> and \<^verbatim>\<open>os.Environ()\<close>.
\<close>

record globals =
  Debug :: bool
  argv0 :: string
  argv :: "string list"
  envv :: "string list"

text \<open>What a \<^verbatim>\<open>log\<close> call prints, by call site.\<close>

datatype log_line =
    LogErr error                     \<comment> \<open>\<^verbatim>\<open>log.Println(err)\<close>\<close>
  | LogIdxErr nat error              \<comment> \<open>\<^verbatim>\<open>log.Println(i, err)\<close>\<close>
  | LogText string                   \<comment> \<open>\<^verbatim>\<open>log.Println("...")\<close>\<close>
  | LogSubscribing string "8 word"   \<comment> \<open>\<^verbatim>\<open>log.Printf("subscribing to %s at QOS %d", ...)\<close>\<close>
  | LogPublishing string "8 word"    \<comment> \<open>\<^verbatim>\<open>log.Printf("publishing to %s at QOS %d", ...)\<close>\<close>
  | LogIn string                     \<comment> \<open>\<^verbatim>\<open>log.Println(">", m.Raw)\<close>\<close>
  | LogOut irc_Message               \<comment> \<open>\<^verbatim>\<open>log.Println("<", m.String())\<close>\<close>

text \<open>
  The effects of the program, one event per call that acts on something outside the
  goroutine that makes it. \<open>Publish\<close> carries the message whose JSON is the payload;
  \<open>Subscribe\<close> carries the error of the subscription (\<open>None\<close>: the handler is
  installed); \<open>Exec\<close> carries what \<^verbatim>\<open>syscall.Exec\<close> returned (\<open>None\<close>: it did not
  return, the process image was replaced).
\<close>

datatype event =
    Log log_line
  | Dial                                 \<comment> \<open>\<^verbatim>\<open>tls.Dial("tcp", twitchIRC, nil)\<close>\<close>
  | Encode irc_Message                   \<comment> \<open>\<^verbatim>\<open>conn.Encode(m)\<close>: a write to the session\<close>
  | Close                                \<comment> \<open>\<^verbatim>\<open>conn.Close()\<close>\<close>
  | Lock                                 \<comment> \<open>\<^verbatim>\<open>mu.Lock()\<close>\<close>
  | Unlock                               \<comment> \<open>\<^verbatim>\<open>mu.Unlock()\<close>\<close>
  | Go_waiter                            \<comment> \<open>\<^verbatim>\<open>go func() { <-stop; ... }()\<close>\<close>
  | AwaitStop                            \<comment> \<open>\<^verbatim>\<open><-stop\<close>\<close>
  | Subscribe string "8 word" "error option"
                                         \<comment> \<open>\<^verbatim>\<open>client.Subscribe(topic, qos, callback)\<close>\<close>
  | Publish string "8 word" irc_Message  \<comment> \<open>\<^verbatim>\<open>client.Publish(topic, qos, false, b)\<close>\<close>
  | Sleep                                \<comment> \<open>\<^verbatim>\<open>time.Sleep(time.Second)\<close>\<close>
  | Exec string "string list" "string list" "error option"
                                         \<comment> \<open>\<^verbatim>\<open>syscall.Exec(argv0, argv, envv)\<close>\<close>
  | Exit nat                             \<comment> \<open>\<^verbatim>\<open>os.Exit(n)\<close>, or \<^verbatim>\<open>main\<close> returning (0)\<close>
  | MqttConnect                          \<comment> \<open>\<^verbatim>\<open>client.Connect()\<close>\<close>
  | Disconnect                           \<comment> \<open>\<^verbatim>\<open>client.Disconnect(0)\<close>\<close>
  | WgAdd nat                            \<comment> \<open>\<^verbatim>\<open>wg.Add(n)\<close>\<close>
  | WgDone                               \<comment> \<open>\<^verbatim>\<open>wg.Done()\<close>\<close>
  | WgWait                               \<comment> \<open>\<^verbatim>\<open>wg.Wait()\<close>\<close>
  | Go_run nat                           \<comment> \<open>\<^verbatim>\<open>go c.run(wg, stop, client)\<close> for connection \<open>i\<close>\<close>
  | AwaitInterrupt                       \<comment> \<open>\<^verbatim>\<open><-c\<close> on the signal channel\<close>
  | CloseStop                            \<comment> \<open>\<^verbatim>\<open>close(stop)\<close>\<close>

text \<open>
  What the world answers to one goroutine's calls, and what the goroutine has done so
  far. Each fallible call takes its answer from a script: \<open>encode_r\<close> for the successive
  \<^verbatim>\<open>conn.Encode\<close> calls, \<open>marshal_r\<close> for \<^verbatim>\<open>json.Marshal\<close>, \<open>publish_r\<close> for the
  error of the publish token; \<open>None\<close> is \<^verbatim>\<open>nil\<close>, and an exhausted script answers
  \<^verbatim>\<open>nil\<close>. \<open>trace\<close> is the list of events so far, oldest first.
\<close>

record io =
  dial_r :: "error option"
  encode_r :: "error option list"
  subscribe_r :: "error option"
  marshal_r :: "error option list"
  publish_r :: "error option list"
  exec_r :: "error option"
  trace :: "event list"

definition pop :: "error option list \<Rightarrow> error option \<times> error option list" where
  "pop rs = (case rs of [] \<Rightarrow> (None, []) | r # rs' \<Rightarrow> (r, rs'))"

definition emit :: "event \<Rightarrow> io \<Rightarrow> io" where
  "emit e s = s\<lparr>trace := trace s @ [e]\<rparr>"

definition log_Println :: "log_line \<Rightarrow> io \<Rightarrow> io" where
  "log_Println l s = emit (Log l) s"

text \<open>\<^verbatim>\<open>log.Fatal(err)\<close> prints and calls \<^verbatim>\<open>os.Exit(1)\<close>; deferred calls do not run.\<close>

definition log_Fatal :: "error \<Rightarrow> io \<Rightarrow> io" where
  "log_Fatal err s = emit (Exit 1) (emit (Log (LogErr err)) s)"

definition conn_Encode :: "irc_Message \<Rightarrow> io \<Rightarrow> error option \<times> io" where
  "conn_Encode m s =
     (case pop (encode_r s) of (r, rs) \<Rightarrow> (r, emit (Encode m) (s\<lparr>encode_r := rs\<rparr>)))"

definition json_Marshal :: "irc_Message \<Rightarrow> io \<Rightarrow> error option \<times> io" where
  "json_Marshal m s = (case pop (marshal_r s) of (r, rs) \<Rightarrow> (r, s\<lparr>marshal_r := rs\<rparr>))"

definition client_Publish :: "string \<Rightarrow> 8 word \<Rightarrow> irc_Message \<Rightarrow> io \<Rightarrow> error option \<times> io" where
  "client_Publish topic qos m s =
     (case pop (publish_r s) of (r, rs) \<Rightarrow> (r, emit (Publish topic qos m) (s\<lparr>publish_r := rs\<rparr>)))"

text \<open>How a goroutine ends: it returns, it ends the process through \<^verbatim>\<open>log.Fatal\<close>, the
  process image is replaced, it panics, or it stays blocked in \<^verbatim>\<open>conn.Decode\<close> (the
  script of decoded input is exhausted).\<close>

datatype outcome = Returned | Fatal | Replaced | Panicked | Blocked

datatype panic = IndexOutOfRange

text \<open>\<^verbatim>\<open>s[i]\<close> on a Go string: the byte, or a run-time panic when \<open>i\<close> is out of range.\<close>

definition index_byte :: "string \<Rightarrow> nat \<Rightarrow> panic + char" where
  "index_byte s i = (if i < length s then Inr (s ! i) else Inl IndexOutOfRange)"

text \<open>\<^verbatim>\<open>strings.Join(elems, sep)\<close>.\<close>

fun Join :: "string list \<Rightarrow> string \<Rightarrow> string" where
  "Join [] sep = []"
| "Join [x] sep = x"
| "Join (x # y # ys) sep = x @ sep @ Join (y # ys) sep"

text \<open>An \<^verbatim>\<open>&irc.Message{...}\<close> literal: the fields it does not name are empty.\<close>

definition msg :: "string \<Rightarrow> string list \<Rightarrow> string \<Rightarrow> irc_Message" where
  "msg cmd ps tr = \<lparr>Raw = [], Command = cmd, Params = ps, Trailing = tr\<rparr>"

section \<open>Session establishment\<close>

definition login :: "string \<Rightarrow> string \<Rightarrow> io \<Rightarrow> error option \<times> io" where
  "login nick pass s =
     (case conn_Encode (msg ''PASS'' [pass] []) s of
        (Some err, s1) \<Rightarrow> (Some err, s1)
      | (None, s1) \<Rightarrow> conn_Encode (msg ''NICK'' [nick] []) s1)"

definition capReq :: "string list \<Rightarrow> io \<Rightarrow> error option \<times> io" where
  "capReq caps s =
     (if length caps = 0 then (None, s)
      else conn_Encode (msg ''CAP'' [''REQ''] (Join caps '' '')) s)"

text \<open>
  The loop of \<^verbatim>\<open>join\<close>, \<^verbatim>\<open>for i, s := range channels\<close>, from index \<open>i\<close> on. It
  writes \<^verbatim>\<open>channels[i]\<close> in place, so the list is returned as it stands when the loop
  ends or panics (\<^verbatim>\<open>s[0]\<close> on an empty name).
\<close>

function join_range :: "nat \<Rightarrow> string list \<Rightarrow> panic option \<times> string list" where
  "join_range i channels =
     (if i < length channels then
        (case index_byte (channels ! i) 0 of
           Inl p \<Rightarrow> (Some p, channels)
         | Inr b \<Rightarrow>
             if b \<noteq> CHR ''#'' then join_range (i + 1) (channels[i := ''#'' @ channels ! i])
             else join_range (i + 1) channels)
      else (None, channels))"
  by pat_completeness auto
termination
  by (relation "measure (\<lambda>(i, channels). length channels - i)") auto

declare join_range.simps [simp del]

text \<open>
  \<^verbatim>\<open>func join(conn irc.Encoder, channels ...string) error\<close>. The caller passes
  \<^verbatim>\<open>c.Publish.Channels...\<close>, so \<^verbatim>\<open>channels\<close> is the config's own slice: the result
  carries the list as \<^verbatim>\<open>join\<close> leaves it. \<open>Inl\<close> is a panic, \<open>Inr\<close> the returned error.
\<close>

definition join :: "string list \<Rightarrow> io \<Rightarrow> (panic + error option) \<times> string list \<times> io" where
  "join channels s =
     (if length channels = 0 then (Inr None, channels, s)
      else
        (case join_range 0 channels of
           (Some p, channels') \<Rightarrow> (Inl p, channels', s)
         | (None, channels') \<Rightarrow>
             (case conn_Encode (msg ''JOIN'' [Join channels' '','']  []) s of
                (r, s1) \<Rightarrow> (Inr r, channels', s1))))"

definition quit :: "io \<Rightarrow> error option \<times> io" where
  "quit s = conn_Encode (msg ''QUIT'' [] []) s"

definition createIRCConn :: "string \<Rightarrow> string \<Rightarrow> io \<Rightarrow> error option \<times> io" where
  "createIRCConn nick pass s =
     (let s0 = emit Dial s in
      case dial_r s0 of
        Some err \<Rightarrow> (Some err, s0)
      | None \<Rightarrow>
          (case login nick pass s0 of
             (Some err, s1) \<Rightarrow> (Some err, s1)
           | (None, s1) \<Rightarrow>
               (case capReq [''twitch.tv/tags'', ''twitch.tv/commands''] s1 of
                  (Some err, s2) \<Rightarrow> (Some err, s2)
                | (None, s2) \<Rightarrow> (None, s2))))"

text \<open>\<^verbatim>\<open>restartProcess\<close>: \<^verbatim>\<open>log.Fatal(syscall.Exec(argv0, argv, envv))\<close>. The call
  returns only when it failed.\<close>

definition restartProcess :: "globals \<Rightarrow> io \<Rightarrow> outcome \<times> io" where
  "restartProcess g s =
     (let s1 = emit (Exec (argv0 g) (argv g) (envv g) (exec_r s)) s in
      case exec_r s of
        None \<Rightarrow> (Replaced, s1)
      | Some err \<Rightarrow> (Fatal, log_Fatal err s1))"

section \<open>The relay loop\<close>

text \<open>What one pass of the \<^verbatim>\<open>for\<close> loop does next: go round again (the end of the
  body or a \<^verbatim>\<open>continue\<close>), or leave the loop with an outcome.\<close>

datatype flow = Continue | Stop outcome

text \<open>The logging \<^verbatim>\<open>if args.Debug { ... } else { switch m.Command ... }\<close>.\<close>

definition log_incoming :: "globals \<Rightarrow> irc_Message \<Rightarrow> io \<Rightarrow> io" where
  "log_incoming g m s =
     (if Debug g then log_Println (LogIn (Raw m)) s
      else if Command m \<in> set [''PRIVMSG'', ''NOTICE'', ''USERNOTICE'', ''PING'',
                                ''CLEARCHAT'', ''HOSTTARGET'']
      then s
      else log_Println (LogIn (Raw m)) s)"

text \<open>The block \<^verbatim>\<open>if c.Publish.Topic != "" { ... }\<close>. The flag is \<open>True\<close> when the
  block ends in its \<^verbatim>\<open>continue\<close> (the marshal error), which skips the rest of the body.\<close>

definition forward :: "Connection \<Rightarrow> irc_Message \<Rightarrow> io \<Rightarrow> bool \<times> io" where
  "forward c m s =
     (if Publish_Topic c \<noteq> [] then
        (case json_Marshal m s of
           (Some err, s1) \<Rightarrow> (True, log_Println (LogErr err) s1)
         | (None, s1) \<Rightarrow>
             (case client_Publish (Publish_Topic c) (Publish_QOS c) m s1 of
                (Some err, s2) \<Rightarrow> (False, log_Println (LogErr err) s2)
              | (None, s2) \<Rightarrow> (False, s2)))
      else (False, s))"

text \<open>The loop body for a message that \<^verbatim>\<open>conn.Decode\<close> returned.\<close>

definition relay_message :: "globals \<Rightarrow> Connection \<Rightarrow> irc_Message \<Rightarrow> io \<Rightarrow> flow \<times> io" where
  "relay_message g c m s0 =
     (let s = log_incoming g m s0 in
      if Command m = ''PING'' then
        (case conn_Encode (m\<lparr>Command := ''PONG''\<rparr>) s of
           (Some err, s1) \<Rightarrow> (Continue, log_Println (LogErr err) s1)
         | (None, s1) \<Rightarrow> (Continue, s1))
      else
        (case forward c m s of
           (True, s1) \<Rightarrow> (Continue, s1)
         | (False, s1) \<Rightarrow>
             if Command m = ''RECONNECT'' then
               (let s2 = log_Println (LogText ''server sent RECONNECT, restarting process'') s1;
                    s3 = emit Sleep s2
                in case restartProcess g s3 of (out, s4) \<Rightarrow> (Stop out, s4))
             else (Continue, s1)))"

text \<open>One pass of the loop, on what \<^verbatim>\<open>conn.Decode(&m)\<close> returned: an error or a
  message.\<close>

definition relay_step :: "globals \<Rightarrow> Connection \<Rightarrow> error + irc_Message \<Rightarrow> io \<Rightarrow> flow \<times> io" where
  "relay_step g c d s =
     (case d of
        Inl err \<Rightarrow> if err = EOF then (Stop Returned, s) else (Stop Fatal, log_Fatal err s)
      | Inr m \<Rightarrow> relay_message g c m s)"

text \<open>The loop \<^verbatim>\<open>for { ... }\<close> over the successive results of \<^verbatim>\<open>conn.Decode\<close>. When
  the input is used up the next \<^verbatim>\<open>Decode\<close> does not return.\<close>

fun relay_loop :: "globals \<Rightarrow> Connection \<Rightarrow> (error + irc_Message) list \<Rightarrow> io \<Rightarrow> outcome \<times> io" where
  "relay_loop g c [] s = (Blocked, s)"
| "relay_loop g c (d # ds) s =
     (case relay_step g c d s of
        (Continue, s1) \<Rightarrow> relay_loop g c ds s1
      | (Stop out, s1) \<Rightarrow> (out, s1))"

section \<open>The subscribe callback and the shutdown waiter\<close>

text \<open>
  The handler given to \<^verbatim>\<open>client.Subscribe\<close>, on what \<^verbatim>\<open>json.Unmarshal\<close> made of the
  payload: an error, or the decoded envelope (a field the payload lacks is empty).
\<close>

definition callback :: "globals \<Rightarrow> error + envelope \<Rightarrow> io \<Rightarrow> outcome \<times> io" where
  "callback g u s =
     (case u of
        Inl err \<Rightarrow> (Returned, log_Println (LogErr err) s)
      | Inr e \<Rightarrow>
          if Channel e = [] then (Returned, log_Println (LogText ''empty channel'') s)
          else
            (case index_byte (Channel e) 0 of
               Inl p \<Rightarrow> (Panicked, emit (Exit 2) s)
             | Inr b \<Rightarrow>
                 (let e1 = (if b \<noteq> CHR ''#'' then e\<lparr>Channel := ''#'' @ Channel e\<rparr> else e) in
                  if Message e1 = [] then (Returned, log_Println (LogText ''empty message'') s)
                  else
                    (let m = msg ''PRIVMSG'' [Channel e1] (Message e1);
                         s1 = (if Debug g then log_Println (LogOut m) s else s);
                         s2 = emit Lock s1
                     in case conn_Encode m s2 of
                          (Some err, s3) \<Rightarrow> (Returned, emit Unlock (log_Println (LogErr err) s3))
                        | (None, s3) \<Rightarrow> (Returned, emit Unlock s3)))))"

text \<open>The goroutine \<^verbatim>\<open>go func() { <-stop; mu.Lock(); defer mu.Unlock(); ... }()\<close>.
  \<^verbatim>\<open>log.Fatal\<close> exits without running the deferred unlock.\<close>

definition waiter :: "io \<Rightarrow> outcome \<times> io" where
  "waiter s =
     (let s1 = emit AwaitStop s;
          s2 = emit Lock s1
      in case quit s2 of
           (Some err, s3) \<Rightarrow> (Fatal, log_Fatal err s3)
         | (None, s3) \<Rightarrow> (Returned, emit Unlock s3))"

section \<open>A connection's task\<close>

text \<open>The block \<^verbatim>\<open>if c.Subscribe.Topic != "" { ... }\<close> of \<^verbatim>\<open>run\<close>.\<close>

definition subscribe_stage :: "Connection \<Rightarrow> io \<Rightarrow> flow \<times> io" where
  "subscribe_stage c s =
     (if Subscribe_Topic c \<noteq> [] then
        (let s1 = log_Println (LogSubscribing (Subscribe_Topic c) (Subscribe_QOS c)) s;
             s2 = emit (Subscribe (Subscribe_Topic c) (Subscribe_QOS c) (subscribe_r s1)) s1
         in case subscribe_r s2 of
              Some err \<Rightarrow> (Stop Fatal, log_Fatal err s2)
            | None \<Rightarrow> (Continue, s2))
      else (Continue, s))"

text \<open>The block \<^verbatim>\<open>if c.Publish.Topic != "" { log.Printf(...) }\<close> of \<^verbatim>\<open>run\<close>.\<close>

definition publish_notice :: "Connection \<Rightarrow> io \<Rightarrow> io" where
  "publish_notice c s =
     (if Publish_Topic c \<noteq> []
      then log_Println (LogPublishing (Publish_Topic c) (Publish_QOS c)) s
      else s)"

text \<open>
  \<^verbatim>\<open>func (c *Connection) run(wg, stop, client)\<close>, on the input its session will decode.
  \<^verbatim>\<open>c\<close> is a pointer, so the config is returned as the task leaves it. The deferred
  \<^verbatim>\<open>conn.Close()\<close> and \<^verbatim>\<open>wg.Done()\<close> run when the function returns or panics (a panic
  then ends the process with status 2), and not after \<^verbatim>\<open>log.Fatal\<close>.
\<close>

definition run :: "globals \<Rightarrow> Connection \<Rightarrow> (error + irc_Message) list \<Rightarrow> io \<Rightarrow> outcome \<times> Connection \<times> io" where
  "run g c decoded s =
     (case createIRCConn (Nick c) (Pass c) s of
        (Some err, s1) \<Rightarrow> (Returned, c, emit WgDone (log_Println (LogErr err) s1))
      | (None, s1) \<Rightarrow>
          (case join (Publish_Channels c) s1 of
             (Inl p, chans, s2) \<Rightarrow>
               (Panicked, c\<lparr>Publish_Channels := chans\<rparr>, emit (Exit 2) (emit WgDone (emit Close s2)))
           | (Inr (Some err), chans, s2) \<Rightarrow>
               (Fatal, c\<lparr>Publish_Channels := chans\<rparr>, log_Fatal err s2)
           | (Inr None, chans, s2) \<Rightarrow>
               (let c1 = c\<lparr>Publish_Channels := chans\<rparr>;
                    s3 = emit Go_waiter s2
                in case subscribe_stage c1 s3 of
                     (Stop out, s4) \<Rightarrow> (out, c1, s4)
                   | (Continue, s4) \<Rightarrow>
                       (case relay_loop g c1 decoded (publish_notice c1 s4) of
                          (Returned, s6) \<Rightarrow> (Returned, c1, emit WgDone (emit Close s6))
                        | (out, s6) \<Rightarrow> (out, c1, s6)))))"

section \<open>The main goroutine\<close>

text \<open>The loop \<^verbatim>\<open>for i, c := range config.Connections\<close> of \<^verbatim>\<open>main\<close>: what it logs.
  \<^verbatim>\<open>exit\<close> is set exactly when it logs something.\<close>

fun validate_all :: "nat \<Rightarrow> Connection list \<Rightarrow> log_line list" where
  "validate_all i [] = []"
| "validate_all i (c # cs) =
     (case validate c of
        Some err \<Rightarrow> LogIdxErr i err # validate_all (i + 1) cs
      | None \<Rightarrow> validate_all (i + 1) cs)"

text \<open>\<^verbatim>\<open>main\<close> from the validation of the loaded config on, as the events of the main
  goroutine; \<open>connect_r\<close> is the error of \<^verbatim>\<open>client.Connect()\<close>.\<close>

definition main_thread :: "Connection list \<Rightarrow> error option \<Rightarrow> event list" where
  "main_thread configs connect_r =
     (let errs = validate_all 0 configs in
      if errs \<noteq> [] then map Log errs @ [Exit 1]
      else
        MqttConnect #
        (case connect_r of
           Some err \<Rightarrow> [Log (LogErr err), Exit 1]
         | None \<Rightarrow>
             [WgAdd (length configs)] @ map Go_run [0..<length configs] @
             [AwaitInterrupt, CloseStop, WgWait, Disconnect, Exit 0]))"

section \<open>Goroutines running together\<close>

text \<open>
  The process is a list of goroutines, each with the events it has still to perform (the
  trace of its function above). A step lets one goroutine perform its next event. The
  synchronisation of \<^verbatim>\<open>main.go\<close> decides which steps are possible: \<^verbatim>\<open>mu.Lock()\<close> needs
  the connection's mutex free, \<^verbatim>\<open><-stop\<close> needs the channel closed, \<^verbatim>\<open>wg.Wait()\<close> needs
  the counter at zero; a goroutine exists once its \<^verbatim>\<open>go\<close> statement has run (for the
  callback: once the subscription is made); nothing runs after \<^verbatim>\<open>os.Exit\<close> or a
  successful \<^verbatim>\<open>syscall.Exec\<close>. Every connection has its own mutex, the \<^verbatim>\<open>mu\<close> local to
  its \<^verbatim>\<open>run\<close>.
\<close>

datatype role = Main | Relay nat | Waiter nat | Callback nat

datatype pstatus = Running | Exited nat | Image_replaced

record thread =
  t_role :: role
  t_todo :: "event list"

text \<open>\<open>locks\<close> maps a connection to the goroutine that holds its mutex. A \<open>history\<close>
  entry is the goroutine, its event, and the holder of its connection's mutex at that
  moment.\<close>

record proc =
  threads :: "thread list"
  locks :: "(nat \<times> nat) list"
  stop_closed :: bool
  wg :: int
  launched :: "nat list"
  waiters :: "nat list"
  subscribed :: "nat list"
  status :: pstatus
  history :: "(nat \<times> event \<times> nat option) list"

definition conn_of :: "role \<Rightarrow> nat option" where
  "conn_of r = (case r of Main \<Rightarrow> None | Relay k \<Rightarrow> Some k | Waiter k \<Rightarrow> Some k | Callback k \<Rightarrow> Some k)"

definition holder :: "proc \<Rightarrow> role \<Rightarrow> nat option" where
  "holder p r = (case conn_of r of None \<Rightarrow> None | Some k \<Rightarrow> map_of (locks p) k)"

definition started :: "proc \<Rightarrow> role \<Rightarrow> bool" where
  "started p r =
     (case r of
        Main \<Rightarrow> True
      | Relay k \<Rightarrow> k \<in> set (launched p)
      | Waiter k \<Rightarrow> k \<in> set (waiters p)
      | Callback k \<Rightarrow> k \<in> set (subscribed p))"

definition can_run :: "proc \<Rightarrow> role \<Rightarrow> event \<Rightarrow> bool" where
  "can_run p r e =
     (case e of
        Lock \<Rightarrow> holder p r = None
      | AwaitStop \<Rightarrow> stop_closed p
      | WgWait \<Rightarrow> wg p = 0
      | _ \<Rightarrow> True)"

definition apply_event :: "nat \<Rightarrow> role \<Rightarrow> event \<Rightarrow> proc \<Rightarrow> proc" where
  "apply_event t r e p =
     (case e of
        Lock \<Rightarrow> (case conn_of r of None \<Rightarrow> p | Some k \<Rightarrow> p\<lparr>locks := (k, t) # locks p\<rparr>)
      | Unlock \<Rightarrow>
          (case conn_of r of None \<Rightarrow> p
           | Some k \<Rightarrow> p\<lparr>locks := filter (\<lambda>kt. fst kt \<noteq> k) (locks p)\<rparr>)
      | CloseStop \<Rightarrow> p\<lparr>stop_closed := True\<rparr>
      | WgAdd n \<Rightarrow> p\<lparr>wg := wg p + int n\<rparr>
      | WgDone \<Rightarrow> p\<lparr>wg := wg p - 1\<rparr>
      | Go_run k \<Rightarrow> p\<lparr>launched := k # launched p\<rparr>
      | Go_waiter \<Rightarrow> (case conn_of r of None \<Rightarrow> p | Some k \<Rightarrow> p\<lparr>waiters := k # waiters p\<rparr>)
      | Subscribe topic qos res \<Rightarrow>
          (case res of
             Some err \<Rightarrow> p
           | None \<Rightarrow>
               (case conn_of r of None \<Rightarrow> p | Some k \<Rightarrow> p\<lparr>subscribed := k # subscribed p\<rparr>))
      | Exit n \<Rightarrow> p\<lparr>status := Exited n\<rparr>
      | Exec a0 av ev res \<Rightarrow> (case res of None \<Rightarrow> p\<lparr>status := Image_replaced\<rparr> | Some err \<Rightarrow> p)
      | _ \<Rightarrow> p)"

text \<open>Goroutine \<open>t\<close> performs its next event, if it has one and may perform it.\<close>

definition step :: "proc \<Rightarrow> nat \<Rightarrow> proc option" where
  "step p t =
     (if status p = Running \<and> t < length (threads p) then
        (let th = threads p ! t in
         case t_todo th of
           [] \<Rightarrow> None
         | e # es \<Rightarrow>
             if started p (t_role th) \<and> can_run p (t_role th) e then
               Some (apply_event t (t_role th) e
                      (p\<lparr>threads := (threads p)[t := th\<lparr>t_todo := es\<rparr>],
                         history := history p @ [(t, e, holder p (t_role th))]\<rparr>))
             else None)
      else None)"

text \<open>A schedule names the goroutine of each successive step; \<open>None\<close> when a step of
  it is not possible.\<close>

fun exec_schedule :: "proc \<Rightarrow> nat list \<Rightarrow> proc option" where
  "exec_schedule p [] = Some p"
| "exec_schedule p (t # ts) =
     (case step p t of None \<Rightarrow> None | Some p1 \<Rightarrow> exec_schedule p1 ts)"

definition boot :: "thread list \<Rightarrow> proc" where
  "boot ths = \<lparr>threads = ths, locks = [], stop_closed = False, wg = 0, launched = [],
               waiters = [], subscribed = [], status = Running, history = []\<rparr>"

text \<open>The start of a goroutine for which every call succeeds: no event performed yet,
  every script empty. An example that lets a call fail updates the script.\<close>

definition io0 :: io where
  "io0 = \<lparr>dial_r = None, encode_r = [], subscribe_r = None, marshal_r = [], publish_r = [],
          exec_r = None, trace = []\<rparr>"

definition main_th :: "Connection list \<Rightarrow> error option \<Rightarrow> thread" where
  "main_th configs connect_r = \<lparr>t_role = Main, t_todo = main_thread configs connect_r\<rparr>"

definition relay_th :: "globals \<Rightarrow> nat \<Rightarrow> Connection \<Rightarrow> (error + irc_Message) list \<Rightarrow> io \<Rightarrow> thread" where
  "relay_th g k c decoded s = \<lparr>t_role = Relay k, t_todo = trace (snd (snd (run g c decoded s)))\<rparr>"

definition waiter_th :: "nat \<Rightarrow> io \<Rightarrow> thread" where
  "waiter_th k s = \<lparr>t_role = Waiter k, t_todo = trace (snd (waiter s))\<rparr>"

definition callback_th :: "globals \<Rightarrow> nat \<Rightarrow> error + envelope \<Rightarrow> io \<Rightarrow> thread" where
  "callback_th g k u s = \<lparr>t_role = Callback k, t_todo = trace (snd (callback g u s))\<rparr>"

section \<open>Reading traces\<close>

text \<open>
  The three results of a connection's task: how it ended, the config as it left it, and
  its events. The task is in the running state when its session is established and its
  loop waits in \<^verbatim>\<open>conn.Decode\<close> for the next message.
\<close>

definition run_outcome :: "globals \<Rightarrow> Connection \<Rightarrow> (error + irc_Message) list \<Rightarrow> io \<Rightarrow> outcome" where
  "run_outcome g c decoded s = fst (run g c decoded s)"

definition run_config :: "globals \<Rightarrow> Connection \<Rightarrow> (error + irc_Message) list \<Rightarrow> io \<Rightarrow> Connection" where
  "run_config g c decoded s = fst (snd (run g c decoded s))"

definition run_io :: "globals \<Rightarrow> Connection \<Rightarrow> (error + irc_Message) list \<Rightarrow> io \<Rightarrow> io" where
  "run_io g c decoded s = snd (snd (run g c decoded s))"

definition run_events :: "globals \<Rightarrow> Connection \<Rightarrow> (error + irc_Message) list \<Rightarrow> io \<Rightarrow> event list" where
  "run_events g c decoded s = trace (run_io g c decoded s)"

definition running :: "globals \<Rightarrow> Connection \<Rightarrow> (error + irc_Message) list \<Rightarrow> io \<Rightarrow> bool" where
  "running g c decoded s = (run_outcome g c decoded s = Blocked)"

text \<open>The messages written to the session, and the messages published, in order.\<close>

fun encoded :: "event list \<Rightarrow> irc_Message list" where
  "encoded [] = []"
| "encoded (Encode m # es) = m # encoded es"
| "encoded (e # es) = encoded es"

fun published :: "event list \<Rightarrow> (string \<times> 8 word \<times> irc_Message) list" where
  "published [] = []"
| "published (Publish topic qos m # es) = (topic, qos, m) # published es"
| "published (e # es) = published es"

text \<open>The exit statuses and the restarts a trace asks for.\<close>

fun exits :: "event list \<Rightarrow> nat list" where
  "exits [] = []"
| "exits (Exit n # es) = n # exits es"
| "exits (e # es) = exits es"

fun execs :: "event list \<Rightarrow> (string \<times> string list \<times> string list) list" where
  "execs [] = []"
| "execs (Exec a0 av ev res # es) = (a0, av, ev) # execs es"
| "execs (e # es) = execs es"

text \<open>
  Whether every write of a goroutine's trace happens while the goroutine holds the
  mutex: \<open>held\<close> says whether it holds it before the first event.
\<close>

fun writes_locked :: "bool \<Rightarrow> event list \<Rightarrow> bool" where
  "writes_locked held [] = True"
| "writes_locked held (Lock # es) = writes_locked True es"
| "writes_locked held (Unlock # es) = writes_locked False es"
| "writes_locked held (Encode m # es) = (held \<and> writes_locked held es)"
| "writes_locked held (e # es) = writes_locked held es"

text \<open>The events a goroutine performed between two of its states.\<close>

definition since :: "io \<Rightarrow> io \<Rightarrow> event list" where
  "since s s' = drop (length (trace s)) (trace s')"

text \<open>The writes of a history made while another goroutine held the connection's
  mutex: the writer, the message and the holder.\<close>

definition overlapping_writes :: "(nat \<times> event \<times> nat option) list \<Rightarrow> (nat \<times> irc_Message \<times> nat) list" where
  "overlapping_writes h =
     concat (map (\<lambda>(t, e, own).
        case e of
          Encode m \<Rightarrow> (case own of None \<Rightarrow> [] | Some t' \<Rightarrow> if t' = t then [] else [(t, m, t')])
        | _ \<Rightarrow> []) h)"

section \<open>The wait group and the order of events\<close>

text \<open>What an event does to the counter of the wait group.\<close>

fun wg_delta :: "event \<Rightarrow> int" where
  "wg_delta (WgAdd n) = int n"
| "wg_delta WgDone = - 1"
| "wg_delta e = 0"

text \<open>The counter after a history that started with the counter at zero.\<close>

definition wg_balance :: "(nat \<times> event \<times> nat option) list \<Rightarrow> int" where
  "wg_balance h = sum_list (map (\<lambda>x. wg_delta (fst (snd x))) h)"

text \<open>The events goroutine \<open>t\<close> performed in a history, in order.\<close>

definition events_by :: "nat \<Rightarrow> (nat \<times> event \<times> nat option) list \<Rightarrow> event list" where
  "events_by t h = map (\<lambda>x. fst (snd x)) (filter (\<lambda>x. fst x = t) h)"

text \<open>What a list of events does to the counter.\<close>

definition bal :: "event list \<Rightarrow> int" where
  "bal es = sum_list (map wg_delta es)"

text \<open>An event that leaves the wait group alone and is not an exit with status 0.\<close>

definition plain :: "event \<Rightarrow> bool" where
  "plain e = (wg_delta e = 0 \<and> e \<noteq> Exit 0)"

text \<open>The second state continues the first with such events only.\<close>

definition plain_ext :: "io \<Rightarrow> io \<Rightarrow> bool" where
  "plain_ext s s' = (\<exists>es. trace s' = trace s @ es \<and> list_all plain es)"

text \<open>The shape of a task's events: such events, then nothing, or the deferred
  \<^verbatim>\<open>wg.Done()\<close>, or \<^verbatim>\<open>wg.Done()\<close> and the crash that ends a panic.\<close>

definition tame :: "event list \<Rightarrow> bool" where
  "tame es = (\<exists>xs tl. es = xs @ tl \<and> list_all plain xs \<and>
     (tl = [] \<or> tl = [WgDone] \<or> tl = [WgDone, Exit 2]))"

text \<open>The counter is what the history says, and every \<^verbatim>\<open>wg.Wait()\<close> in the history
  was passed with the counter at zero.\<close>

definition wg_inv :: "proc \<Rightarrow> bool" where
  "wg_inv p = (wg p = wg_balance (history p) \<and>
     (\<forall>i < length (history p). fst (snd (history p ! i)) = WgWait \<longrightarrow>
        wg_balance (take i (history p)) = 0))"

text \<open>Every goroutine performs the events of its function in their order: what it has
  done and what it has still to do make up what it started with.\<close>

definition order_inv :: "thread list \<Rightarrow> proc \<Rightarrow> bool" where
  "order_inv ths p = (length (threads p) = length ths \<and>
     (\<forall>t < length ths. events_by t (history p) @ t_todo (threads p ! t) = t_todo (ths ! t)))"

text \<open>Only the \<open>N\<close> goroutines act, and a process that has exited with a status has
  performed an exit with that status.\<close>

definition exit_inv :: "nat \<Rightarrow> proc \<Rightarrow> bool" where
  "exit_inv N p = ((\<forall>x \<in> set (history p). fst x < N) \<and>
     (\<forall>n. status p = Exited n \<longrightarrow> (\<exists>x \<in> set (history p). fst (snd x) = Exit n)))"

text \<open>What holds of every state a schedule can reach from \<open>boot ths\<close>.\<close>

definition reach_inv :: "thread list \<Rightarrow> proc \<Rightarrow> bool" where
  "reach_inv ths p = (wg_inv p \<and> order_inv ths p \<and> exit_inv (length ths) p)"

text \<open>
  A process made of \<^verbatim>\<open>main\<close> (goroutine 0), one task per config (goroutines 1 to
  \<open>length configs\<close>) and, after them, any number of waiters and callback invocations,
  each started with no event performed.
\<close>

definition task_threads :: "thread list \<Rightarrow> Connection list \<Rightarrow> bool" where
  "task_threads ths configs =
     (length configs < length ths \<and>
      t_todo (ths ! 0) = main_thread configs None \<and>
      (\<forall>k < length configs. \<exists>g c decoded s.
         trace s = [] \<and> t_todo (ths ! Suc k) = run_events g c decoded s) \<and>
      (\<forall>t. length configs < t \<and> t < length ths \<longrightarrow>
         (\<exists>s. trace s = [] \<and> t_todo (ths ! t) = trace (snd (waiter s))) \<or>
         (\<exists>g u s. trace s = [] \<and> t_todo (ths ! t) = trace (snd (callback g u s)))))"

section \<open>Example inputs\<close>

text \<open>A process started as \<^verbatim>\<open>./twitchmqtt --debug\<close> would have \<open>Debug\<close> set; the
  examples run without it.\<close>

definition g0 :: globals where
  "g0 = \<lparr>Debug = False, argv0 = ''./twitchmqtt'', argv = [''./twitchmqtt''],
          envv = [''MQTT_BROKER=tcp://localhost:1883'']\<rparr>"

text \<open>A connection that joins two channels, publishes and subscribes.\<close>

definition cfg0 :: Connection where
  "cfg0 = \<lparr>Nick = ''bot'', Pass = ''oauth:abc'', Publish_Topic = ''twitch/in'',
      Publish_QOS = 1, Publish_Channels = [''foo'', ''#bar''],
      Subscribe_Topic = ''twitch/out'', Subscribe_QOS = 2\<rparr>"

text \<open>A connection that only subscribes.\<close>

definition cfg1 :: Connection where
  "cfg1 = \<lparr>Nick = ''bot'', Pass = ''oauth:abc'', Publish_Topic = [],
      Publish_QOS = 0, Publish_Channels = [],
      Subscribe_Topic = ''twitch/out'', Subscribe_QOS = 0\<rparr>"

definition ping0 :: irc_Message where
  "ping0 = \<lparr>Raw = ''PING :tmi.twitch.tv'', Command = ''PING'', Params = [],
     Trailing = ''tmi.twitch.tv''\<rparr>"

definition reconnect0 :: irc_Message where
  "reconnect0 = \<lparr>Raw = '':tmi.twitch.tv RECONNECT'', Command = ''RECONNECT'', Params = [],
     Trailing = []\<rparr>"

definition privmsg0 :: irc_Message where
  "privmsg0 = \<lparr>Raw = '':u!u@u.tmi.twitch.tv PRIVMSG #foo :hello'', Command = ''PRIVMSG'',
     Params = [''#foo''], Trailing = ''hello''\<rparr>"

text \<open>
  One connection that subscribes; its session decodes a \<^verbatim>\<open>PING\<close> while the broker
  delivers \<^verbatim>\<open>{"channel":"foo","message":"hi"}\<close>.
\<close>

definition proc_ping_during_delivery :: proc where
  "proc_ping_during_delivery =
     boot [main_th [cfg1] None,
           relay_th g0 0 cfg1 [Inr ping0] io0,
           callback_th g0 0 (Inr \<lparr>Channel = ''foo'', Message = ''hi''\<rparr>) io0]"

text \<open>One connection whose session refuses the \<^verbatim>\<open>QUIT\<close> write.\<close>

definition proc_quit_fails :: proc where
  "proc_quit_fails =
     boot [main_th [cfg1] None,
           relay_th g0 0 cfg1 [] io0,
           waiter_th 0 (io0\<lparr>encode_r := [Some (Other ''write: broken pipe'')]\<rparr>)]"

text \<open>One connection whose session takes the \<^verbatim>\<open>QUIT\<close> and then reports the end of
  the stream.\<close>

definition proc_quit_ok :: proc where
  "proc_quit_ok =
     boot [main_th [cfg1] None,
           relay_th g0 0 cfg1 [Inl EOF] io0,
           waiter_th 0 io0]"

text \<open>Two connections: the first decodes \<^verbatim>\<open>RECONNECT\<close>, the second a chat line.\<close>

definition proc_reconnect :: proc where
  "proc_reconnect =
     boot [main_th [cfg0, cfg0] None,
           relay_th g0 0 cfg0 [Inr reconnect0] io0,
           relay_th g0 1 cfg0 [Inr privmsg0] io0]"

section \<open>Properties of validation\<close>

lemma HasPrefix_append: "HasPrefix s pre \<longleftrightarrow> (\<exists>r. s = pre @ r)"
proof
  assume "HasPrefix s pre"
  then have "s = pre @ drop (length pre) s"
    by (metis HasPrefix_def append_take_drop_id)
  then show "\<exists>r. s = pre @ r" ..
next
  assume "\<exists>r. s = pre @ r"
  then show "HasPrefix s pre"
    by (auto simp: HasPrefix_def)
qed

lemma validate_channels_None: "validate_channels ss = None \<longleftrightarrow> (\<forall>s \<in> set ss. s \<noteq> [])"
  by (induction ss) auto

lemma validate_channels_Some: "validate_channels ss = Some e \<Longrightarrow> e = errEmptyChannel"
  by (induction ss) (auto split: if_splits)

text \<open>
  Claim C2. \<open>validate\<close> returns no error exactly when the nick is non-empty, the
  credential is non-empty and starts with \<^verbatim>\<open>oauth:\<close>, the publish topic differs from the
  subscribe topic, a non-empty channel list comes with a non-empty publish topic, both
  quality levels are at most 2 and no listed channel name is empty; an error it returns
  is one of the seven validation errors. \<open>validate\<close> is a function of the config alone:
  its type has no state and no effect.
\<close>

theorem validate_succeeds_iff:
  "(validate c = None \<longleftrightarrow>
      Nick c \<noteq> [] \<and> Pass c \<noteq> [] \<and> (\<exists>r. Pass c = ''oauth:'' @ r) \<and>
      Publish_Topic c \<noteq> Subscribe_Topic c \<and>
      (Publish_Channels c \<noteq> [] \<longrightarrow> Publish_Topic c \<noteq> []) \<and>
      Publish_QOS c \<le> 2 \<and> Subscribe_QOS c \<le> 2 \<and>
      (\<forall>s \<in> set (Publish_Channels c). s \<noteq> [])) \<and>
   (\<forall>e. validate c = Some e \<longrightarrow>
      e \<in> {errEmptyNick, errEmptyPass, errNonOauthPass, errBadTopics,
           errChannelsNoTopic, errBadQOS, errEmptyChannel})"
proof
  show "validate c = None \<longleftrightarrow>
      Nick c \<noteq> [] \<and> Pass c \<noteq> [] \<and> (\<exists>r. Pass c = ''oauth:'' @ r) \<and>
      Publish_Topic c \<noteq> Subscribe_Topic c \<and>
      (Publish_Channels c \<noteq> [] \<longrightarrow> Publish_Topic c \<noteq> []) \<and>
      Publish_QOS c \<le> 2 \<and> Subscribe_QOS c \<le> 2 \<and>
      (\<forall>s \<in> set (Publish_Channels c). s \<noteq> [])"
    unfolding validate_def HasPrefix_append [symmetric]
    by (auto simp: validate_channels_None not_less)
next
  show "\<forall>e. validate c = Some e \<longrightarrow>
      e \<in> {errEmptyNick, errEmptyPass, errNonOauthPass, errBadTopics,
           errChannelsNoTopic, errBadQOS, errEmptyChannel}"
    unfolding validate_def
    by (auto split: if_splits dest: validate_channels_Some)
qed

theorem validate_succeeds_iff_witness:
  "validate \<lparr>Nick = ''bot'', Pass = ''oauth:abc'', Publish_Topic = ''twitch/in'',
      Publish_QOS = 1, Publish_Channels = [''foo'', ''#bar''],
      Subscribe_Topic = ''twitch/out'', Subscribe_QOS = 2\<rparr> = None
   \<and> validate \<lparr>Nick = ''bot'', Pass = ''oauth:abc'', Publish_Topic = ''twitch/in'',
      Publish_QOS = 3, Publish_Channels = [''foo'', ''#bar''],
      Subscribe_Topic = ''twitch/out'', Subscribe_QOS = 2\<rparr> \<noteq> None"
  using validate_succeeds_iff [of "\<lparr>Nick = ''bot'', Pass = ''oauth:abc'',
      Publish_Topic = ''twitch/in'', Publish_QOS = 1, Publish_Channels = [''foo'', ''#bar''],
      Subscribe_Topic = ''twitch/out'', Subscribe_QOS = 2\<rparr>"]
    validate_succeeds_iff [of "\<lparr>Nick = ''bot'', Pass = ''oauth:abc'',
      Publish_Topic = ''twitch/in'', Publish_QOS = 3, Publish_Channels = [''foo'', ''#bar''],
      Subscribe_Topic = ''twitch/out'', Subscribe_QOS = 2\<rparr>"]
  by simp

section \<open>Unfolding the model on concrete inputs\<close>

lemmas model_defs = run_def createIRCConn_def login_def capReq_def join_def quit_def
  subscribe_stage_def publish_notice_def relay_step_def relay_message_def forward_def
  log_incoming_def restartProcess_def conn_Encode_def json_Marshal_def client_Publish_def
  pop_def emit_def log_Println_def log_Fatal_def msg_def index_byte_def io0_def
  callback_def waiter_def main_thread_def validate_def HasPrefix_def
  run_outcome_def run_events_def run_io_def run_config_def running_def

lemmas sched_defs = boot_def main_th_def relay_th_def callback_th_def waiter_th_def
  step_def started_def can_run_def apply_event_def holder_def conn_of_def
  overlapping_writes_def since_def

lemmas example_defs = g0_def cfg0_def cfg1_def ping0_def reconnect0_def privmsg0_def

section \<open>Traces of the basic operations\<close>

lemma encoded_append: "encoded (xs @ ys) = encoded xs @ encoded ys"
  by (induction xs rule: encoded.induct) simp_all

lemma published_append: "published (xs @ ys) = published xs @ published ys"
  by (induction xs rule: published.induct) simp_all

lemma exits_append: "exits (xs @ ys) = exits xs @ exits ys"
  by (induction xs rule: exits.induct) simp_all

lemma execs_append: "execs (xs @ ys) = execs xs @ execs ys"
  by (induction xs rule: execs.induct) simp_all

lemma trace_emit: "trace (emit e s) = trace s @ [e]"
  by (simp add: emit_def)

lemma trace_log_Println: "trace (log_Println l s) = trace s @ [Log l]"
  by (simp add: log_Println_def emit_def)

lemma trace_log_Fatal: "trace (log_Fatal err s) = trace s @ [Log (LogErr err), Exit 1]"
  by (simp add: log_Fatal_def emit_def)

lemma encoded_log_incoming: "encoded (trace (log_incoming g m s)) = encoded (trace s)"
  by (simp add: log_incoming_def trace_log_Println encoded_append)

lemma published_log_incoming: "published (trace (log_incoming g m s)) = published (trace s)"
  by (simp add: log_incoming_def trace_log_Println published_append)

section \<open>The loop over a longer input\<close>

lemma relay_message_stops:
  "relay_message g c m s = (Stop out, s') \<Longrightarrow> out \<in> {Replaced, Fatal}"
  by (auto simp: relay_message_def restartProcess_def Let_def
      split: prod.splits option.splits if_splits bool.splits)

lemma relay_step_stops:
  "relay_step g c d s = (Stop out, s') \<Longrightarrow> out \<in> {Returned, Replaced, Fatal}"
  using relay_message_stops [of g c _ s out s']
  by (auto simp: relay_step_def split: sum.splits if_splits)

text \<open>The loop reads on exactly when it is still waiting for input.\<close>

lemma relay_loop_append:
  "relay_loop g c (pre @ ds) s =
     (case relay_loop g c pre s of (Blocked, s1) \<Rightarrow> relay_loop g c ds s1 | r \<Rightarrow> r)"
proof (induction pre arbitrary: s)
  case Nil
  show ?case by simp
next
  case (Cons d pre)
  show ?case
  proof (cases "relay_step g c d s")
    case (Pair fl s1)
    show ?thesis
    proof (cases fl)
      case Continue
      with Pair Cons show ?thesis by simp
    next
      case (Stop out)
      with Pair relay_step_stops [of g c d s out s1] show ?thesis by auto
    qed
  qed
qed

lemma run_established:
  assumes "createIRCConn (Nick c) (Pass c) s = (None, s1)"
    and "join (Publish_Channels c) s1 = (Inr None, chans, s2)"
    and "subscribe_stage (c\<lparr>Publish_Channels := chans\<rparr>) (emit Go_waiter s2) = (Continue, s4)"
  shows "run g c decoded s =
     (case relay_loop g (c\<lparr>Publish_Channels := chans\<rparr>) decoded
             (publish_notice (c\<lparr>Publish_Channels := chans\<rparr>) s4) of
        (Returned, s6) \<Rightarrow> (Returned, c\<lparr>Publish_Channels := chans\<rparr>, emit WgDone (emit Close s6))
      | (out, s6) \<Rightarrow> (out, c\<lparr>Publish_Channels := chans\<rparr>, s6))"
  using assms by (simp add: run_def Let_def)

lemma subscribe_stage_flow: "fst (subscribe_stage c s) \<in> {Continue, Stop Fatal}"
  by (simp add: subscribe_stage_def Let_def split: option.splits)

text \<open>A task that waits for input has established its session, joined and subscribed.\<close>

lemma run_Blocked_D:
  assumes "fst (run g c pre s) = Blocked"
  shows "\<exists>s1 chans s2 s4.
     createIRCConn (Nick c) (Pass c) s = (None, s1) \<and>
     join (Publish_Channels c) s1 = (Inr None, chans, s2) \<and>
     subscribe_stage (c\<lparr>Publish_Channels := chans\<rparr>) (emit Go_waiter s2) = (Continue, s4)"
proof -
  obtain r1 s1 where c1: "createIRCConn (Nick c) (Pass c) s = (r1, s1)"
    by (cases "createIRCConn (Nick c) (Pass c) s")
  have r1: "r1 = None"
    using assms c1 by (cases r1) (simp_all add: run_def)
  obtain j chans s2 where j: "join (Publish_Channels c) s1 = (j, chans, s2)"
    by (cases "join (Publish_Channels c) s1")
  have jn: "j = Inr None"
  proof (cases j)
    case (Inl p)
    with assms c1 r1 j show ?thesis by (simp add: run_def)
  next
    case (Inr e)
    with assms c1 r1 j show ?thesis by (cases e) (simp_all add: run_def)
  qed
  obtain fl s4 where sub: "subscribe_stage (c\<lparr>Publish_Channels := chans\<rparr>) (emit Go_waiter s2) = (fl, s4)"
    by (cases "subscribe_stage (c\<lparr>Publish_Channels := chans\<rparr>) (emit Go_waiter s2)")
  have "fl = Continue"
  proof (rule ccontr)
    assume "fl \<noteq> Continue"
    with subscribe_stage_flow [of "c\<lparr>Publish_Channels := chans\<rparr>" "emit Go_waiter s2"] sub
    have "fl = Stop Fatal" by simp
    with assms c1 r1 j jn sub show False by (simp add: run_def Let_def)
  qed
  with c1 r1 j jn sub show ?thesis by blast
qed

lemma run_append:
  assumes "fst (run g c pre s) = Blocked"
  shows "run g c (pre @ ds) s =
     (case run g c pre s of
        (b, c1, s6) \<Rightarrow>
          (case relay_loop g c1 ds s6 of
             (Returned, s7) \<Rightarrow> (Returned, c1, emit WgDone (emit Close s7))
           | (out, s7) \<Rightarrow> (out, c1, s7)))"
proof -
  from run_Blocked_D [OF assms] obtain s1 chans s2 s4 where
    est: "createIRCConn (Nick c) (Pass c) s = (None, s1)"
      "join (Publish_Channels c) s1 = (Inr None, chans, s2)"
      "subscribe_stage (c\<lparr>Publish_Channels := chans\<rparr>) (emit Go_waiter s2) = (Continue, s4)"
    by blast
  let ?c1 = "c\<lparr>Publish_Channels := chans\<rparr>"
  obtain out s6 where loop: "relay_loop g ?c1 pre (publish_notice ?c1 s4) = (out, s6)"
    by (cases "relay_loop g ?c1 pre (publish_notice ?c1 s4)")
  have "out = Blocked"
    using assms loop by (cases out) (simp_all add: run_established [OF est])
  with loop have pre: "run g c pre s = (Blocked, ?c1, s6)"
    by (simp add: run_established [OF est])
  show ?thesis
    using loop \<open>out = Blocked\<close>
    by (simp add: pre run_established [OF est] relay_loop_append)
qed

lemma run_running_config:
  assumes "running g c pre s"
  shows "\<exists>chans. run_config g c pre s = c\<lparr>Publish_Channels := chans\<rparr>"
proof -
  from assms have b: "fst (run g c pre s) = Blocked"
    by (simp add: running_def run_outcome_def)
  from run_Blocked_D [OF b] obtain s1 chans s2 s4 where
    est: "createIRCConn (Nick c) (Pass c) s = (None, s1)"
      "join (Publish_Channels c) s1 = (Inr None, chans, s2)"
      "subscribe_stage (c\<lparr>Publish_Channels := chans\<rparr>) (emit Go_waiter s2) = (Continue, s4)"
    by blast
  have "run_config g c pre s = c\<lparr>Publish_Channels := chans\<rparr>"
    by (simp add: run_config_def run_established [OF est] split: prod.splits outcome.splits)
  then show ?thesis ..
qed

text \<open>What a running task does with the next result of \<^verbatim>\<open>conn.Decode\<close>.\<close>

lemma run_next:
  assumes "running g c pre s"
  shows "run g c (pre @ d # ds) s =
     (case relay_step g (run_config g c pre s) d (run_io g c pre s) of
        (Continue, s1) \<Rightarrow>
          (case relay_loop g (run_config g c pre s) ds s1 of
             (Returned, s7) \<Rightarrow> (Returned, run_config g c pre s, emit WgDone (emit Close s7))
           | (out, s7) \<Rightarrow> (out, run_config g c pre s, s7))
      | (Stop out, s1) \<Rightarrow>
          (case out of
             Returned \<Rightarrow> (Returned, run_config g c pre s, emit WgDone (emit Close s1))
           | _ \<Rightarrow> (out, run_config g c pre s, s1)))"
proof -
  from assms have b: "fst (run g c pre s) = Blocked"
    by (simp add: running_def run_outcome_def)
  show ?thesis
    by (simp add: run_append [OF b] run_config_def run_io_def
        split: prod.splits flow.splits outcome.splits)
qed

lemma running_cfg0: "running g0 cfg0 [] io0"
  by (simp add: model_defs example_defs join_range.simps Let_def)

lemma run_events_cfg0:
  "run_events g0 cfg0 [] io0 =
     [Dial,
      Encode \<lparr>Raw = [], Command = ''PASS'', Params = [''oauth:abc''], Trailing = []\<rparr>,
      Encode \<lparr>Raw = [], Command = ''NICK'', Params = [''bot''], Trailing = []\<rparr>,
      Encode \<lparr>Raw = [], Command = ''CAP'', Params = [''REQ''],
              Trailing = ''twitch.tv/tags twitch.tv/commands''\<rparr>,
      Encode \<lparr>Raw = [], Command = ''JOIN'', Params = [''#foo,#bar''], Trailing = []\<rparr>,
      Go_waiter, Log (LogSubscribing ''twitch/out'' 2), Subscribe ''twitch/out'' 2 None,
      Log (LogPublishing ''twitch/in'' 1)]"
  by (simp add: model_defs example_defs join_range.simps Let_def)

section \<open>Keepalive\<close>

lemma relay_step_ping:
  "Command m = ''PING'' \<Longrightarrow>
     fst (relay_step g c (Inr m) s) = Continue \<and>
     encoded (trace (snd (relay_step g c (Inr m) s))) =
       encoded (trace s) @ [m\<lparr>Command := ''PONG''\<rparr>] \<and>
     published (trace (snd (relay_step g c (Inr m) s))) = published (trace s)"
  by (simp add: relay_step_def relay_message_def conn_Encode_def trace_emit trace_log_Println
      encoded_append published_append encoded_log_incoming published_log_incoming Let_def
      split: prod.splits option.splits)

text \<open>
  Claim C3. A running task that decodes a message \<open>m\<close> with command \<^verbatim>\<open>PING\<close> writes
  exactly one more message to the session, \<open>m\<close> with the command replaced by \<^verbatim>\<open>PONG\<close>
  (so with the parameters and the trailing text of \<open>m\<close>), publishes nothing for it,
  whatever the publish topic, and goes on reading.
\<close>

theorem ping_answered_with_pong:
  assumes "running g c pre s" and "Command m = ''PING''"
  shows "running g c (pre @ [Inr m]) s \<and>
     encoded (run_events g c (pre @ [Inr m]) s) =
       encoded (run_events g c pre s) @ [m\<lparr>Command := ''PONG''\<rparr>] \<and>
     published (run_events g c (pre @ [Inr m]) s) = published (run_events g c pre s)"
proof -
  let ?c1 = "run_config g c pre s" and ?s1 = "run_io g c pre s"
  obtain fl s2 where st: "relay_step g ?c1 (Inr m) ?s1 = (fl, s2)"
    by (cases "relay_step g ?c1 (Inr m) ?s1")
  from relay_step_ping [OF assms(2), of g ?c1 ?s1] st
  have fl: "fl = Continue"
    and enc: "encoded (trace s2) = encoded (trace ?s1) @ [m\<lparr>Command := ''PONG''\<rparr>]"
    and pub: "published (trace s2) = published (trace ?s1)"
    by simp_all
  have "run g c (pre @ [Inr m]) s = (Blocked, ?c1, s2)"
    by (simp add: run_next [OF assms(1)] st fl)
  with enc pub show ?thesis
    by (simp add: running_def run_outcome_def run_events_def run_io_def)
qed

theorem ping_answered_with_pong_witness:
  "running g0 cfg0 [] io0 \<and> Command ping0 = ''PING'' \<and>
   running g0 cfg0 [Inr ping0] io0 \<and>
   encoded (run_events g0 cfg0 [Inr ping0] io0) =
     [\<lparr>Raw = [], Command = ''PASS'', Params = [''oauth:abc''], Trailing = []\<rparr>,
      \<lparr>Raw = [], Command = ''NICK'', Params = [''bot''], Trailing = []\<rparr>,
      \<lparr>Raw = [], Command = ''CAP'', Params = [''REQ''],
         Trailing = ''twitch.tv/tags twitch.tv/commands''\<rparr>,
      \<lparr>Raw = [], Command = ''JOIN'', Params = [''#foo,#bar''], Trailing = []\<rparr>,
      \<lparr>Raw = ''PING :tmi.twitch.tv'', Command = ''PONG'', Params = [],
         Trailing = ''tmi.twitch.tv''\<rparr>] \<and>
   published (run_events g0 cfg0 [Inr ping0] io0) = []"
proof -
  have p: "Command ping0 = ''PING''" by (simp add: ping0_def)
  from ping_answered_with_pong [OF running_cfg0 p]
  show ?thesis
    using running_cfg0 p by (simp add: run_events_cfg0) (simp add: ping0_def)
qed

section \<open>Deliveries from the broker\<close>

text \<open>
  Claim C4. A delivery whose payload decodes to a non-empty channel and a non-empty
  message text writes exactly one message to the session: \<^verbatim>\<open>PRIVMSG\<close>, with the single
  parameter the channel name, prefixed with \<^verbatim>\<open>#\<close> unless it starts with it, and the
  message text as trailing. A payload that fails to decode, an empty channel or an
  empty message text writes nothing: the handler logs one line and returns.
\<close>

theorem subscribe_delivery:
  "encoded (trace (snd (callback g u s))) =
     encoded (trace s) @
       (case u of
          Inl err \<Rightarrow> []
        | Inr e \<Rightarrow>
            if Channel e = [] \<or> Message e = [] then []
            else [\<lparr>Raw = [], Command = ''PRIVMSG'',
                   Params = [if hd (Channel e) = CHR ''#'' then Channel e else ''#'' @ Channel e],
                   Trailing = Message e\<rparr>]) \<and>
   ((case u of Inl err \<Rightarrow> True | Inr e \<Rightarrow> Channel e = [] \<or> Message e = []) \<longrightarrow>
      fst (callback g u s) = Returned \<and>
      (\<exists>l. trace (snd (callback g u s)) = trace s @ [Log l]))"
  by (auto simp: callback_def index_byte_def conn_Encode_def trace_emit trace_log_Println
      encoded_append msg_def hd_conv_nth Let_def
      split: prod.splits option.splits sum.splits)

theorem subscribe_delivery_witness:
  "encoded (trace (snd (callback g0 (Inr \<lparr>Channel = ''foo'', Message = ''hi''\<rparr>) io0))) =
     [\<lparr>Raw = [], Command = ''PRIVMSG'', Params = [''#foo''], Trailing = ''hi''\<rparr>] \<and>
   encoded (trace (snd (callback g0 (Inr \<lparr>Channel = ''#foo'', Message = ''hi''\<rparr>) io0))) =
     [\<lparr>Raw = [], Command = ''PRIVMSG'', Params = [''#foo''], Trailing = ''hi''\<rparr>] \<and>
   (\<exists>l. trace (snd (callback g0 (Inr \<lparr>Channel = ''foo'', Message = []\<rparr>) io0)) = [Log l]) \<and>
   (\<exists>l. trace (snd (callback g0 (Inl (Other ''unexpected end of JSON input'')) io0)) = [Log l])"
  using subscribe_delivery [of g0 "Inr \<lparr>Channel = ''foo'', Message = ''hi''\<rparr>" io0]
    subscribe_delivery [of g0 "Inr \<lparr>Channel = ''#foo'', Message = ''hi''\<rparr>" io0]
    subscribe_delivery [of g0 "Inr \<lparr>Channel = ''foo'', Message = []\<rparr>" io0]
    subscribe_delivery [of g0 "Inl (Other ''unexpected end of JSON input'')" io0]
  by (simp add: io0_def)

section \<open>Decode errors\<close>

text \<open>
  Claim C5. In the running state, a decode that returns \<^verbatim>\<open>io.EOF\<close> ends the loop with
  nothing logged: the task closes its session, signals its completion and returns. Any
  other decode error is logged and ends the whole process with \<^verbatim>\<open>os.Exit(1)\<close>; the
  session is not closed and the completion is not signalled.
\<close>

theorem decode_error_ends_loop:
  assumes "running g c pre s"
  shows "run_outcome g c (pre @ Inl EOF # ds) s = Returned \<and>
     run_events g c (pre @ Inl EOF # ds) s = run_events g c pre s @ [Close, WgDone] \<and>
     (err \<noteq> EOF \<longrightarrow>
        run_outcome g c (pre @ Inl err # ds) s = Fatal \<and>
        run_events g c (pre @ Inl err # ds) s =
          run_events g c pre s @ [Log (LogErr err), Exit 1])"
  by (simp add: run_outcome_def run_events_def run_io_def run_next [OF assms]
      relay_step_def trace_emit trace_log_Fatal)

theorem decode_error_ends_loop_witness:
  "running g0 cfg0 [] io0 \<and>
   run_outcome g0 cfg0 [Inl EOF, Inr ping0] io0 = Returned \<and>
   run_events g0 cfg0 [Inl EOF, Inr ping0] io0 = run_events g0 cfg0 [] io0 @ [Close, WgDone] \<and>
   Other ''read: connection reset by peer'' \<noteq> EOF \<and>
   run_outcome g0 cfg0 [Inl (Other ''read: connection reset by peer''), Inr ping0] io0 = Fatal \<and>
   run_events g0 cfg0 [Inl (Other ''read: connection reset by peer''), Inr ping0] io0 =
     run_events g0 cfg0 [] io0 @
       [Log (LogErr (Other ''read: connection reset by peer'')), Exit 1]"
  using running_cfg0
    decode_error_ends_loop [OF running_cfg0, of "[Inr ping0]" "Other ''read: connection reset by peer''"]
  by simp

section \<open>Channel names\<close>

text \<open>When no name from index \<open>i\<close> on is empty, the loop of \<^verbatim>\<open>join\<close> does not panic
  and leaves every such name with the \<^verbatim>\<open>#\<close> prefix.\<close>

lemma join_range_total:
  "\<forall>j. i \<le> j \<and> j < length chans \<longrightarrow> chans ! j \<noteq> [] \<Longrightarrow>
   join_range i chans =
     (None, take i chans @ map (\<lambda>ch. if hd ch = CHR ''#'' then ch else ''#'' @ ch) (drop i chans))"
proof (induction i chans rule: join_range.induct)
  case (1 i channels)
  let ?f = "\<lambda>ch. if hd ch = CHR ''#'' then ch else ''#'' @ ch"
  show ?case
  proof (cases "i < length channels")
    case False
    then show ?thesis by (subst join_range.simps) simp
  next
    case True
    with 1(3) have ne: "channels ! i \<noteq> []" by simp
    then have ib: "index_byte (channels ! i) 0 = Inr (hd (channels ! i))"
      by (simp add: index_byte_def hd_conv_nth)
    have split: "take i channels @ map ?f (drop i channels) =
        take i channels @ ?f (channels ! i) # map ?f (drop (Suc i) channels)"
      using True by (simp add: Cons_nth_drop_Suc [symmetric])
    show ?thesis
    proof (cases "hd (channels ! i) = CHR ''#''")
      case True
      have "join_range (i + 1) channels = (None, take (i + 1) channels @ map ?f (drop (i + 1) channels))"
        using 1(2) [OF \<open>i < length channels\<close> ib] True 1(3) by simp
      then show ?thesis
        using \<open>i < length channels\<close> ib True split
        by (subst join_range.simps) (simp add: take_Suc_conv_app_nth)
    next
      case False
      let ?c = "channels[i := ''#'' @ channels ! i]"
      have "\<forall>j. i + 1 \<le> j \<and> j < length ?c \<longrightarrow> ?c ! j \<noteq> []"
        using 1(3) by simp
      then have "join_range (i + 1) ?c = (None, take (i + 1) ?c @ map ?f (drop (i + 1) ?c))"
        using 1(1) [OF \<open>i < length channels\<close> ib] False by simp
      then show ?thesis
        using \<open>i < length channels\<close> ib False split
        by (subst join_range.simps) (simp add: take_Suc_conv_app_nth)
    qed
  qed
qed

lemma join_range_validated:
  assumes "\<forall>ch \<in> set chans. ch \<noteq> []"
  shows "join_range 0 chans = (None, map (\<lambda>ch. if hd ch = CHR ''#'' then ch else ''#'' @ ch) chans)"
proof -
  from assms have "\<forall>j. 0 \<le> j \<and> j < length chans \<longrightarrow> chans ! j \<noteq> []"
    by simp
  from join_range_total [OF this] show ?thesis by simp
qed

lemma validate_channels_ok: "validate c = None \<Longrightarrow> \<forall>ch \<in> set (Publish_Channels c). ch \<noteq> []"
  by (simp add: validate_def validate_channels_None split: if_splits)

lemma join_validated:
  assumes "\<forall>ch \<in> set chans. ch \<noteq> []"
  shows "join chans s =
     (if chans = [] then (Inr None, chans, s)
      else (Inr (fst (pop (encode_r s))),
            map (\<lambda>ch. if hd ch = CHR ''#'' then ch else ''#'' @ ch) chans,
            snd (conn_Encode (msg ''JOIN''
              [Join (map (\<lambda>ch. if hd ch = CHR ''#'' then ch else ''#'' @ ch) chans) '',''] []) s)))"
  by (simp add: join_def join_range_validated [OF assms] conn_Encode_def split: prod.splits)

lemma relay_loop_never_panics: "fst (relay_loop g c ds s) \<noteq> Panicked"
proof (induction ds arbitrary: s)
  case Nil
  show ?case by simp
next
  case (Cons d ds)
  show ?case
  proof (cases "relay_step g c d s")
    case (Pair fl s1)
    show ?thesis
    proof (cases fl)
      case Continue
      with Pair Cons show ?thesis by simp
    next
      case (Stop out)
      with Pair relay_step_stops [of g c d s out s1] show ?thesis by auto
    qed
  qed
qed

lemma join_panics_on_empty_name:
  "fst (join [''foo'', [], ''bar''] io0) = Inl IndexOutOfRange"
  by (simp add: join_def join_range.simps index_byte_def)

text \<open>
  Claim C10. For a config that passed validation, the normalisation of channel names
  reads no byte out of range: \<^verbatim>\<open>join\<close> does not panic on \<^verbatim>\<open>s[0]\<close>, so the task does not
  panic; and the subscribe callback, which reads \<^verbatim>\<open>msg.Channel[0]\<close> only after its
  test for the empty string, does not panic on any payload.
\<close>

theorem normalization_never_panics:
  assumes "validate c = None"
  shows "(\<forall>p. fst (join (Publish_Channels c) s) \<noteq> Inl p) \<and>
     run_outcome g c decoded s \<noteq> Panicked \<and>
     fst (callback g u s') \<noteq> Panicked"
proof -
  note nonempty = validate_channels_ok [OF assms]
  have j: "\<And>s. \<forall>p. fst (join (Publish_Channels c) s) \<noteq> Inl p"
    by (simp add: join_validated [OF nonempty])
  have cb: "fst (callback g u s') \<noteq> Panicked"
    by (simp add: callback_def index_byte_def Let_def split: sum.splits prod.splits option.splits)
  have r: "run_outcome g c decoded s \<noteq> Panicked"
  proof -
    obtain r1 s1 where c1: "createIRCConn (Nick c) (Pass c) s = (r1, s1)"
      by (cases "createIRCConn (Nick c) (Pass c) s")
    show ?thesis
    proof (cases r1)
      case (Some err)
      with c1 show ?thesis by (simp add: run_outcome_def run_def)
    next
      case None
      obtain jr chans s2 where jn: "join (Publish_Channels c) s1 = (jr, chans, s2)"
        by (cases "join (Publish_Channels c) s1")
      from j [of s1] jn obtain e where jr: "jr = Inr e" by (cases jr) auto
      let ?c1 = "c\<lparr>Publish_Channels := chans\<rparr>"
      obtain fl s4 where sub: "subscribe_stage ?c1 (emit Go_waiter s2) = (fl, s4)"
        by (cases "subscribe_stage ?c1 (emit Go_waiter s2)")
      from subscribe_stage_flow [of ?c1 "emit Go_waiter s2"] sub
      have fl: "fl = Continue \<or> fl = Stop Fatal" by simp
      show ?thesis
      proof (cases e)
        case (Some err)
        with c1 None jn jr show ?thesis by (simp add: run_outcome_def run_def)
      next
        case None': None
        from fl show ?thesis
        proof
          assume "fl = Stop Fatal"
          with c1 None jn jr None' sub show ?thesis
            by (simp add: run_outcome_def run_def Let_def)
        next
          assume "fl = Continue"
          with c1 None jn jr None' sub
            relay_loop_never_panics [of g ?c1 decoded "publish_notice ?c1 s4"]
          show ?thesis
            by (auto simp: run_outcome_def run_def Let_def split: prod.splits outcome.splits)
        qed
      qed
    qed
  qed
  from j cb r show ?thesis by blast
qed

theorem normalization_never_panics_witness:
  "validate cfg0 = None \<and>
   (\<forall>p. fst (join (Publish_Channels cfg0) io0) \<noteq> Inl p) \<and>
   run_outcome g0 cfg0 [] io0 \<noteq> Panicked \<and>
   fst (callback g0 (Inr \<lparr>Channel = [], Message = ''hi''\<rparr>) io0) \<noteq> Panicked"
proof -
  have v: "validate cfg0 = None"
    by (simp add: validate_def HasPrefix_def cfg0_def)
  from normalization_never_panics [OF v, of io0 g0 "[]" "Inr \<lparr>Channel = [], Message = ''hi''\<rparr>" io0]
  show ?thesis using v by simp
qed

section \<open>The config after the task\<close>

text \<open>
  The claim C9 as the spec states it, that no operation after validation modifies a
  field of the config or an entry of its channel list, fails: \<open>cfg0\<close> passes validation,
  and the task leaves its channel list as \<^verbatim>\<open>["#foo", "#bar"]\<close> where it was
  \<^verbatim>\<open>["foo", "#bar"]\<close>: \<^verbatim>\<open>join\<close> writes the prefixed names into the slice it was given.
\<close>

theorem join_rewrites_config_channels:
  "validate cfg0 = None \<and>
   Publish_Channels cfg0 = [''foo'', ''#bar''] \<and>
   Publish_Channels (run_config g0 cfg0 [] io0) = [''#foo'', ''#bar'']"
  by (simp add: model_defs example_defs join_range.simps Let_def)

text \<open>
  Claim C9, amended. For a config that passed validation, the task leaves every field
  of the config as it was, but for the channel list when the session was established:
  then every listed name that does not start with \<^verbatim>\<open>#\<close> has been replaced by the name
  with the prefix, in place, and the other names are unchanged. The relay loop, the
  callback and the waiter return no config: they cannot change it.
\<close>

theorem config_after_run:
  assumes "validate c = None"
  shows "run_config g c decoded s =
     (if fst (createIRCConn (Nick c) (Pass c) s) = None
      then c\<lparr>Publish_Channels :=
               map (\<lambda>ch. if hd ch = CHR ''#'' then ch else ''#'' @ ch) (Publish_Channels c)\<rparr>
      else c)"
proof -
  note nonempty = validate_channels_ok [OF assms]
  obtain r1 s1 where c1: "createIRCConn (Nick c) (Pass c) s = (r1, s1)"
    by (cases "createIRCConn (Nick c) (Pass c) s")
  show ?thesis
  proof (cases r1)
    case (Some err)
    with c1 show ?thesis by (simp add: run_config_def run_def)
  next
    case None
    with c1 show ?thesis
      by (simp add: run_config_def run_def join_validated [OF nonempty] Let_def
          split: prod.splits option.splits flow.splits outcome.splits)
  qed
qed

theorem config_after_run_witness:
  "validate cfg1 = None \<and> run_config g0 cfg1 [Inr ping0] io0 = cfg1 \<and>
   validate cfg0 = None \<and>
   run_config g0 cfg0 [] (io0\<lparr>dial_r := Some (Other ''dial tcp: i/o timeout'')\<rparr>) = cfg0 \<and>
   run_config g0 cfg0 [Inl EOF] io0 = cfg0\<lparr>Publish_Channels := [''#foo'', ''#bar'']\<rparr>"
proof -
  have v1: "validate cfg1 = None"
    by (simp add: validate_def HasPrefix_def cfg1_def)
  have v0: "validate cfg0 = None"
    by (simp add: validate_def HasPrefix_def cfg0_def)
  have e1: "fst (createIRCConn (Nick cfg1) (Pass cfg1) io0) = None"
    and e0: "fst (createIRCConn (Nick cfg0) (Pass cfg0) io0) = None"
    and e2: "fst (createIRCConn (Nick cfg0) (Pass cfg0)
               (io0\<lparr>dial_r := Some (Other ''dial tcp: i/o timeout'')\<rparr>)) \<noteq> None"
    by (simp_all add: model_defs Let_def)
  have ch: "Publish_Channels cfg1 = []" "Publish_Channels cfg0 = [''foo'', ''#bar'']"
    by (simp_all add: example_defs)
  from config_after_run [OF v1, of g0 "[Inr ping0]" io0]
    config_after_run [OF v0, of g0 "[]" "io0\<lparr>dial_r := Some (Other ''dial tcp: i/o timeout'')\<rparr>"]
    config_after_run [OF v0, of g0 "[Inl EOF]" io0]
  show ?thesis
    using v1 v0 by (simp add: e1 e0 e2 ch)
qed

section \<open>Failures while the session is set up\<close>

text \<open>Nothing runs once the process has exited or its image has been replaced.\<close>

lemma halted_no_step: "status p \<noteq> Running \<Longrightarrow> step p t = None"
  by (simp add: step_def)

lemma exec_schedule_halted: "status p \<noteq> Running \<Longrightarrow> ts \<noteq> [] \<Longrightarrow> exec_schedule p ts = None"
  by (cases ts) (simp_all add: halted_no_step)

lemma run_dial_fails:
  "dial_r s = Some err \<Longrightarrow>
   run g c decoded s = (Returned, c, s\<lparr>trace := trace s @ [Dial, Log (LogErr err), WgDone]\<rparr>)"
  by (simp add: run_def createIRCConn_def emit_def log_Println_def Let_def)

lemma run_pass_fails:
  "dial_r s = None \<Longrightarrow> encode_r s = Some err # rs \<Longrightarrow>
   run g c decoded s =
     (Returned, c,
      s\<lparr>encode_r := rs,
        trace := trace s @
          [Dial, Encode \<lparr>Raw = [], Command = ''PASS'', Params = [Pass c], Trailing = []\<rparr>,
           Log (LogErr err), WgDone]\<rparr>)"
  by (simp add: run_def createIRCConn_def login_def conn_Encode_def pop_def msg_def emit_def
      log_Println_def Let_def)

lemma run_nick_fails:
  "dial_r s = None \<Longrightarrow> encode_r s = None # Some err # rs \<Longrightarrow>
   run g c decoded s =
     (Returned, c,
      s\<lparr>encode_r := rs,
        trace := trace s @
          [Dial, Encode \<lparr>Raw = [], Command = ''PASS'', Params = [Pass c], Trailing = []\<rparr>,
           Encode \<lparr>Raw = [], Command = ''NICK'', Params = [Nick c], Trailing = []\<rparr>,
           Log (LogErr err), WgDone]\<rparr>)"
  by (simp add: run_def createIRCConn_def login_def conn_Encode_def pop_def msg_def emit_def
      log_Println_def Let_def)

lemma run_cap_fails:
  "dial_r s = None \<Longrightarrow> encode_r s = None # None # Some err # rs \<Longrightarrow>
   run g c decoded s =
     (Returned, c,
      s\<lparr>encode_r := rs,
        trace := trace s @
          [Dial, Encode \<lparr>Raw = [], Command = ''PASS'', Params = [Pass c], Trailing = []\<rparr>,
           Encode \<lparr>Raw = [], Command = ''NICK'', Params = [Nick c], Trailing = []\<rparr>,
           Encode \<lparr>Raw = [], Command = ''CAP'', Params = [''REQ''],
                   Trailing = ''twitch.tv/tags twitch.tv/commands''\<rparr>,
           Log (LogErr err), WgDone]\<rparr>)"
  by (simp add: run_def createIRCConn_def login_def capReq_def conn_Encode_def pop_def msg_def
      emit_def log_Println_def Let_def)

lemma run_join_fails:
  assumes "dial_r s = None" and "encode_r s = None # None # None # Some err # rs"
    and "Publish_Channels c \<noteq> []" and "\<forall>ch \<in> set (Publish_Channels c). ch \<noteq> []"
  shows "run g c decoded s =
     (Fatal,
      c\<lparr>Publish_Channels :=
          map (\<lambda>ch. if hd ch = CHR ''#'' then ch else ''#'' @ ch) (Publish_Channels c)\<rparr>,
      s\<lparr>encode_r := rs,
        trace := trace s @
          [Dial, Encode \<lparr>Raw = [], Command = ''PASS'', Params = [Pass c], Trailing = []\<rparr>,
           Encode \<lparr>Raw = [], Command = ''NICK'', Params = [Nick c], Trailing = []\<rparr>,
           Encode \<lparr>Raw = [], Command = ''CAP'', Params = [''REQ''],
                   Trailing = ''twitch.tv/tags twitch.tv/commands''\<rparr>,
           Encode \<lparr>Raw = [], Command = ''JOIN'',
                   Params = [Join (map (\<lambda>ch. if hd ch = CHR ''#'' then ch else ''#'' @ ch)
                                    (Publish_Channels c)) '',''],
                   Trailing = []\<rparr>,
           Log (LogErr err), Exit 1]\<rparr>)"
  using assms(1-3)
  by (simp add: run_def createIRCConn_def login_def capReq_def join_validated [OF assms(4)]
      conn_Encode_def pop_def msg_def emit_def log_Println_def log_Fatal_def Let_def)

text \<open>
  The claim C6 as the spec states it, that a join failure abandons only its connection,
  fails: when the session refuses the \<^verbatim>\<open>JOIN\<close> write, the fourth write of the task,
  \<^verbatim>\<open>run\<close> calls \<^verbatim>\<open>log.Fatal\<close>, and the process exits with status 1.
\<close>

theorem join_failure_is_fatal:
  "run_outcome g0 cfg0 [] (io0\<lparr>encode_r := [None, None, None, Some (Other ''write: broken pipe'')]\<rparr>) = Fatal \<and>
   exits (run_events g0 cfg0 [] (io0\<lparr>encode_r := [None, None, None, Some (Other ''write: broken pipe'')]\<rparr>)) = [1]"
  by (simp add: model_defs example_defs join_range.simps Let_def)

text \<open>
  Claim C6, amended. A failure of the TLS dial, of the login (the \<^verbatim>\<open>PASS\<close> or the
  \<^verbatim>\<open>NICK\<close> write) or of the capability request abandons only that connection: the
  error is logged, the task signals its completion and returns, with no exit of the
  process, no join, no waiter, no subscription and no read loop, and the config
  untouched. A failure of the join write is logged and ends the whole process with
  status 1.
\<close>

theorem setup_failures:
  "(dial_r s = Some err \<longrightarrow>
      run_outcome g c decoded s = Returned \<and> run_config g c decoded s = c \<and>
      run_events g c decoded s = trace s @ [Dial, Log (LogErr err), WgDone]) \<and>
   (dial_r s = None \<and> encode_r s = Some err # rs \<longrightarrow>
      run_outcome g c decoded s = Returned \<and> run_config g c decoded s = c \<and>
      run_events g c decoded s = trace s @
        [Dial, Encode \<lparr>Raw = [], Command = ''PASS'', Params = [Pass c], Trailing = []\<rparr>,
         Log (LogErr err), WgDone]) \<and>
   (dial_r s = None \<and> encode_r s = None # Some err # rs \<longrightarrow>
      run_outcome g c decoded s = Returned \<and> run_config g c decoded s = c \<and>
      run_events g c decoded s = trace s @
        [Dial, Encode \<lparr>Raw = [], Command = ''PASS'', Params = [Pass c], Trailing = []\<rparr>,
         Encode \<lparr>Raw = [], Command = ''NICK'', Params = [Nick c], Trailing = []\<rparr>,
         Log (LogErr err), WgDone]) \<and>
   (dial_r s = None \<and> encode_r s = None # None # Some err # rs \<longrightarrow>
      run_outcome g c decoded s = Returned \<and> run_config g c decoded s = c \<and>
      run_events g c decoded s = trace s @
        [Dial, Encode \<lparr>Raw = [], Command = ''PASS'', Params = [Pass c], Trailing = []\<rparr>,
         Encode \<lparr>Raw = [], Command = ''NICK'', Params = [Nick c], Trailing = []\<rparr>,
         Encode \<lparr>Raw = [], Command = ''CAP'', Params = [''REQ''],
                 Trailing = ''twitch.tv/tags twitch.tv/commands''\<rparr>,
         Log (LogErr err), WgDone]) \<and>
   (dial_r s = None \<and> encode_r s = None # None # None # Some err # rs \<and>
    Publish_Channels c \<noteq> [] \<and> (\<forall>ch \<in> set (Publish_Channels c). ch \<noteq> []) \<longrightarrow>
      run_outcome g c decoded s = Fatal \<and>
      run_events g c decoded s = trace s @
        [Dial, Encode \<lparr>Raw = [], Command = ''PASS'', Params = [Pass c], Trailing = []\<rparr>,
         Encode \<lparr>Raw = [], Command = ''NICK'', Params = [Nick c], Trailing = []\<rparr>,
         Encode \<lparr>Raw = [], Command = ''CAP'', Params = [''REQ''],
                 Trailing = ''twitch.tv/tags twitch.tv/commands''\<rparr>,
         Encode \<lparr>Raw = [], Command = ''JOIN'',
                 Params = [Join (map (\<lambda>ch. if hd ch = CHR ''#'' then ch else ''#'' @ ch)
                                  (Publish_Channels c)) '',''],
                 Trailing = []\<rparr>,
         Log (LogErr err), Exit 1])"
proof (intro conjI impI)
  assume "dial_r s = Some err"
  note r = run_dial_fails [OF this, of g c decoded]
  show "run_outcome g c decoded s = Returned" "run_config g c decoded s = c"
    "run_events g c decoded s = trace s @ [Dial, Log (LogErr err), WgDone]"
    by (simp_all add: run_outcome_def run_config_def run_events_def run_io_def r)
next
  assume a: "dial_r s = None \<and> encode_r s = Some err # rs"
  note r = run_pass_fails [OF conjunct1 [OF a] conjunct2 [OF a], of g c decoded]
  show "run_outcome g c decoded s = Returned" "run_config g c decoded s = c"
    "run_events g c decoded s = trace s @
        [Dial, Encode \<lparr>Raw = [], Command = ''PASS'', Params = [Pass c], Trailing = []\<rparr>,
         Log (LogErr err), WgDone]"
    by (simp_all add: run_outcome_def run_config_def run_events_def run_io_def r)
next
  assume a: "dial_r s = None \<and> encode_r s = None # Some err # rs"
  note r = run_nick_fails [OF conjunct1 [OF a] conjunct2 [OF a], of g c decoded]
  show "run_outcome g c decoded s = Returned" "run_config g c decoded s = c"
    "run_events g c decoded s = trace s @
        [Dial, Encode \<lparr>Raw = [], Command = ''PASS'', Params = [Pass c], Trailing = []\<rparr>,
         Encode \<lparr>Raw = [], Command = ''NICK'', Params = [Nick c], Trailing = []\<rparr>,
         Log (LogErr err), WgDone]"
    by (simp_all add: run_outcome_def run_config_def run_events_def run_io_def r)
next
  assume a: "dial_r s = None \<and> encode_r s = None # None # Some err # rs"
  note r = run_cap_fails [OF conjunct1 [OF a] conjunct2 [OF a], of g c decoded]
  show "run_outcome g c decoded s = Returned" "run_config g c decoded s = c"
    "run_events g c decoded s = trace s @
        [Dial, Encode \<lparr>Raw = [], Command = ''PASS'', Params = [Pass c], Trailing = []\<rparr>,
         Encode \<lparr>Raw = [], Command = ''NICK'', Params = [Nick c], Trailing = []\<rparr>,
         Encode \<lparr>Raw = [], Command = ''CAP'', Params = [''REQ''],
                 Trailing = ''twitch.tv/tags twitch.tv/commands''\<rparr>,
         Log (LogErr err), WgDone]"
    by (simp_all add: run_outcome_def run_config_def run_events_def run_io_def r)
next
  assume a: "dial_r s = None \<and> encode_r s = None # None # None # Some err # rs \<and>
    Publish_Channels c \<noteq> [] \<and> (\<forall>ch \<in> set (Publish_Channels c). ch \<noteq> [])"
  then have a1: "dial_r s = None" and a2: "encode_r s = None # None # None # Some err # rs"
    and a3: "Publish_Channels c \<noteq> []" and a4: "\<forall>ch \<in> set (Publish_Channels c). ch \<noteq> []"
    by blast+
  note r = run_join_fails [OF a1 a2 a3 a4, of g decoded]
  show "run_outcome g c decoded s = Fatal"
    "run_events g c decoded s = trace s @
        [Dial, Encode \<lparr>Raw = [], Command = ''PASS'', Params = [Pass c], Trailing = []\<rparr>,
         Encode \<lparr>Raw = [], Command = ''NICK'', Params = [Nick c], Trailing = []\<rparr>,
         Encode \<lparr>Raw = [], Command = ''CAP'', Params = [''REQ''],
                 Trailing = ''twitch.tv/tags twitch.tv/commands''\<rparr>,
         Encode \<lparr>Raw = [], Command = ''JOIN'',
                 Params = [Join (map (\<lambda>ch. if hd ch = CHR ''#'' then ch else ''#'' @ ch)
                                  (Publish_Channels c)) '',''],
                 Trailing = []\<rparr>,
         Log (LogErr err), Exit 1]"
    by (simp_all add: run_outcome_def run_events_def run_io_def r)
qed

theorem setup_failures_witness:
  "run_events g0 cfg0 [] (io0\<lparr>dial_r := Some (Other ''dial tcp: i/o timeout'')\<rparr>) =
     [Dial, Log (LogErr (Other ''dial tcp: i/o timeout'')), WgDone] \<and>
   run_outcome g0 cfg0 [] (io0\<lparr>encode_r := [Some (Other ''broken pipe'')]\<rparr>) = Returned \<and>
   run_outcome g0 cfg0 [] (io0\<lparr>encode_r := [None, Some (Other ''broken pipe'')]\<rparr>) = Returned \<and>
   run_outcome g0 cfg0 [] (io0\<lparr>encode_r := [None, None, Some (Other ''broken pipe'')]\<rparr>) = Returned \<and>
   run_outcome g0 cfg0 [] (io0\<lparr>encode_r := [None, None, None, Some (Other ''broken pipe'')]\<rparr>) = Fatal"
  using
    setup_failures [of "io0\<lparr>dial_r := Some (Other ''dial tcp: i/o timeout'')\<rparr>"
      "Other ''dial tcp: i/o timeout''" g0 cfg0 "[]" "[]"]
    setup_failures [of "io0\<lparr>encode_r := [Some (Other ''broken pipe'')]\<rparr>"
      "Other ''broken pipe''" g0 cfg0 "[]" "[]"]
    setup_failures [of "io0\<lparr>encode_r := [None, Some (Other ''broken pipe'')]\<rparr>"
      "Other ''broken pipe''" g0 cfg0 "[]" "[]"]
    setup_failures [of "io0\<lparr>encode_r := [None, None, Some (Other ''broken pipe'')]\<rparr>"
      "Other ''broken pipe''" g0 cfg0 "[]" "[]"]
    setup_failures [of "io0\<lparr>encode_r := [None, None, None, Some (Other ''broken pipe'')]\<rparr>"
      "Other ''broken pipe''" g0 cfg0 "[]" "[]"]
  by (simp add: io0_def cfg0_def)

section \<open>Writes and the connection's lock\<close>

text \<open>The callback and the waiter write to the session only while they hold the lock;
  the read loop writes its \<^verbatim>\<open>PONG\<close> without taking it.\<close>

lemma since_trace: "trace s' = trace s @ es \<Longrightarrow> since s s' = es"
  by (simp add: since_def)

lemma waiter_trace:
  "trace (snd (waiter s)) =
     trace s @ [AwaitStop, Lock, Encode \<lparr>Raw = [], Command = ''QUIT'', Params = [], Trailing = []\<rparr>] @
       (case fst (pop (encode_r s)) of None \<Rightarrow> [Unlock] | Some err \<Rightarrow> [Log (LogErr err), Exit 1])"
  by (simp add: waiter_def quit_def conn_Encode_def msg_def emit_def log_Fatal_def Let_def
      split: prod.splits option.splits)

lemma callback_trace:
  "\<exists>es. trace (snd (callback g u s)) = trace s @ es \<and> writes_locked False es"
  by (cases u)
    (auto simp: callback_def index_byte_def conn_Encode_def emit_def log_Println_def Let_def
      split: prod.splits option.splits)

lemma callback_writes_locked: "writes_locked False (since s (snd (callback g u s)))"
  using callback_trace [of g u s] by (auto simp: since_def)

lemma waiter_writes_locked: "writes_locked False (since s (snd (waiter s)))"
  by (simp add: since_trace [OF waiter_trace] split: option.splits)

lemma pong_write_not_locked:
  "Command m = ''PING'' \<Longrightarrow> \<not> writes_locked False (since s (snd (relay_step g c (Inr m) s)))"
  by (simp add: since_def relay_step_def relay_message_def log_incoming_def conn_Encode_def
      emit_def log_Println_def Let_def split: prod.splits option.splits)

section \<open>What every schedule preserves\<close>

lemma apply_event_fields:
  "history (apply_event t r e q) = history q"
  "threads (apply_event t r e q) = threads q"
  "wg (apply_event t r e q) = wg q + wg_delta e"
  by (cases e; simp add: apply_event_def split: option.splits)+

lemma apply_event_status:
  "status (apply_event t r e q) =
     (case e of Exit n \<Rightarrow> Exited n
      | Exec a0 av ev res \<Rightarrow> (case res of None \<Rightarrow> Image_replaced | Some err \<Rightarrow> status q)
      | _ \<Rightarrow> status q)"
  by (cases e; simp add: apply_event_def split: option.splits)

lemma step_SomeD:
  assumes "step p t = Some p'"
  shows "\<exists>e es. status p = Running \<and> t < length (threads p) \<and>
     t_todo (threads p ! t) = e # es \<and>
     can_run p (t_role (threads p ! t)) e \<and>
     history p' = history p @ [(t, e, holder p (t_role (threads p ! t)))] \<and>
     threads p' = (threads p)[t := (threads p ! t)\<lparr>t_todo := es\<rparr>] \<and>
     wg p' = wg p + wg_delta e"
  using assms
  by (auto simp: step_def Let_def apply_event_fields split: if_splits list.splits)

lemma wg_inv_step:
  assumes "wg_inv p" and "step p t = Some p'"
  shows "wg_inv p'"
proof -
  from step_SomeD [OF assms(2)] obtain e es where
    run: "can_run p (t_role (threads p ! t)) e"
    and h: "history p' = history p @ [(t, e, holder p (t_role (threads p ! t)))]"
    and w: "wg p' = wg p + wg_delta e"
    by blast
  from assms(1) have bal: "wg p = wg_balance (history p)"
    and old: "\<forall>i < length (history p). fst (snd (history p ! i)) = WgWait \<longrightarrow>
        wg_balance (take i (history p)) = 0"
    by (simp_all add: wg_inv_def)
  have "wg p' = wg_balance (history p')"
    by (simp add: w h bal wg_balance_def)
  moreover have "wg_balance (take i (history p')) = 0"
    if "i < length (history p')" and "fst (snd (history p' ! i)) = WgWait" for i
  proof (cases "i < length (history p)")
    case True
    with that old show ?thesis by (simp add: h nth_append)
  next
    case False
    with that have i: "i = length (history p)" and e: "e = WgWait"
      by (simp_all add: h nth_append)
    from run e have "wg p = 0" by (simp add: can_run_def)
    with bal show ?thesis by (simp add: i h)
  qed
  ultimately show ?thesis by (simp add: wg_inv_def)
qed

lemma wg_inv_schedule:
  "wg_inv p \<Longrightarrow> exec_schedule p ts = Some p' \<Longrightarrow> wg_inv p'"
proof (induction ts arbitrary: p)
  case Nil
  then show ?case by simp
next
  case (Cons t ts)
  then show ?case
    by (auto split: option.splits dest: wg_inv_step)
qed

lemma wg_inv_boot: "wg_inv (boot ths)"
  by (simp add: wg_inv_def boot_def wg_balance_def)

lemma order_inv_step:
  assumes "order_inv ths p" and "step p t = Some p'"
  shows "order_inv ths p'"
proof -
  from step_SomeD [OF assms(2)] obtain e es where
    t: "t < length (threads p)"
    and todo: "t_todo (threads p ! t) = e # es"
    and h: "history p' = history p @ [(t, e, holder p (t_role (threads p ! t)))]"
    and th: "threads p' = (threads p)[t := (threads p ! t)\<lparr>t_todo := es\<rparr>]"
    by blast
  from assms(1) have len: "length (threads p) = length ths"
    and old: "\<forall>u < length ths. events_by u (history p) @ t_todo (threads p ! u) = t_todo (ths ! u)"
    by (simp_all add: order_inv_def)
  have "events_by u (history p') @ t_todo (threads p' ! u) = t_todo (ths ! u)"
    if "u < length ths" for u
  proof (cases "u = t")
    case True
    from old that True have "events_by t (history p) @ t_todo (threads p ! t) = t_todo (ths ! t)"
      by blast
    with True that todo show ?thesis
      by (simp add: h th len events_by_def)
  next
    case False
    with old that show ?thesis
      by (simp add: h th events_by_def)
  qed
  then show ?thesis by (simp add: order_inv_def th len)
qed

lemma order_inv_schedule:
  "order_inv ths p \<Longrightarrow> exec_schedule p ts = Some p' \<Longrightarrow> order_inv ths p'"
proof (induction ts arbitrary: p)
  case Nil
  then show ?case by simp
next
  case (Cons t ts)
  then show ?case
    by (auto split: option.splits dest: order_inv_step)
qed

lemma order_inv_boot: "order_inv ths (boot ths)"
  by (simp add: order_inv_def boot_def events_by_def)

lemma step_exited:
  assumes "step p t = Some p'" and "status p' = Exited n"
  shows "\<exists>own. history p' = history p @ [(t, Exit n, own)]"
proof -
  from assms(1) obtain e es where r: "status p = Running"
    and todo: "t_todo (threads p ! t) = e # es"
    and p': "p' = apply_event t (t_role (threads p ! t)) e
        (p\<lparr>threads := (threads p)[t := (threads p ! t)\<lparr>t_todo := es\<rparr>],
           history := history p @ [(t, e, holder p (t_role (threads p ! t)))]\<rparr>)"
    by (auto simp: step_def Let_def split: if_splits list.splits)
  have st: "status p' =
     (case e of Exit n \<Rightarrow> Exited n
      | Exec a0 av ev res \<Rightarrow> (case res of None \<Rightarrow> Image_replaced | Some err \<Rightarrow> Running)
      | _ \<Rightarrow> Running)"
    by (cases e) (simp_all add: p' apply_event_status r split: option.splits)
  from assms(2) have "e = Exit n"
    unfolding st by (cases e) (simp_all split: option.splits)
  then show ?thesis by (simp add: p' apply_event_fields)
qed

lemma exit_inv_step:
  assumes "exit_inv N p" and "length (threads p) = N" and "step p t = Some p'"
  shows "exit_inv N p'"
proof -
  from step_SomeD [OF assms(3)] obtain e es where
    t: "t < length (threads p)"
    and h: "history p' = history p @ [(t, e, holder p (t_role (threads p ! t)))]"
    by blast
  from assms(1) have "\<forall>x \<in> set (history p). fst x < N" by (simp add: exit_inv_def)
  with t assms(2) h have a: "\<forall>x \<in> set (history p'). fst x < N" by auto
  have b: "\<exists>x \<in> set (history p'). fst (snd x) = Exit n" if "status p' = Exited n" for n
    using step_exited [OF assms(3) that] by auto
  from a b show ?thesis by (simp add: exit_inv_def)
qed

lemma reach_inv_step:
  assumes "reach_inv ths p" and "step p t = Some p'"
  shows "reach_inv ths p'"
proof -
  from assms(1) have w: "wg_inv p" and o: "order_inv ths p" and e: "exit_inv (length ths) p"
    by (simp_all add: reach_inv_def)
  from o have len: "length (threads p) = length ths" by (simp add: order_inv_def)
  from wg_inv_step [OF w assms(2)] order_inv_step [OF o assms(2)]
    exit_inv_step [OF e len assms(2)]
  show ?thesis by (simp add: reach_inv_def)
qed

lemma reach_inv_schedule:
  "reach_inv ths p \<Longrightarrow> exec_schedule p ts = Some p' \<Longrightarrow> reach_inv ths p'"
proof (induction ts arbitrary: p)
  case Nil
  then show ?case by simp
next
  case (Cons t ts)
  then show ?case
    by (auto split: option.splits dest: reach_inv_step)
qed

lemma reach_inv_boot: "reach_inv ths (boot ths)"
  using wg_inv_boot [of ths] order_inv_boot [of ths]
  by (simp add: reach_inv_def exit_inv_def boot_def)

lemma wg_balance_by_thread:
  "\<forall>x \<in> set h. fst x < N \<Longrightarrow> wg_balance h = (\<Sum>t<N. bal (events_by t h))"
proof (induction h)
  case Nil
  show ?case by (simp add: wg_balance_def bal_def events_by_def)
next
  case (Cons x h)
  then have ih: "wg_balance h = (\<Sum>t<N. bal (events_by t h))" and x: "fst x < N"
    by simp_all
  have "(\<Sum>t<N. bal (events_by t (x # h))) =
        (\<Sum>t<N. (if t = fst x then wg_delta (fst (snd x)) else 0) + bal (events_by t h))"
    by (rule sum.cong) (auto simp: bal_def events_by_def)
  also have "\<dots> = (\<Sum>t<N. if t = fst x then wg_delta (fst (snd x)) else 0) + (\<Sum>t<N. bal (events_by t h))"
    by (simp add: sum.distrib)
  also have "(\<Sum>t<N. if t = fst x then wg_delta (fst (snd x)) else 0) = wg_delta (fst (snd x))"
    using x by (simp add: sum.delta)
  finally show ?case
    using ih by (simp add: wg_balance_def)
qed

lemma plain_ext_refl: "plain_ext s s"
  by (simp add: plain_ext_def)

lemma plain_ext_trans: "plain_ext s s1 \<Longrightarrow> plain_ext s1 s2 \<Longrightarrow> plain_ext s s2"
  by (auto simp: plain_ext_def)

lemma plain_ext_emit: "plain e \<Longrightarrow> plain_ext s (emit e s)"
  by (simp add: plain_ext_def emit_def)

lemma plain_ext_log: "plain_ext s (log_Println l s)"
  by (simp add: log_Println_def plain_ext_emit plain_def)

lemma plain_ext_Fatal: "plain_ext s (log_Fatal err s)"
  by (simp add: plain_ext_def log_Fatal_def emit_def plain_def)

lemma plain_ext_Encode: "plain_ext s (snd (conn_Encode m s))"
  by (simp add: plain_ext_def conn_Encode_def emit_def plain_def split: prod.splits)

lemma plain_ext_login: "plain_ext s (snd (login nick pass s))"
proof (cases "conn_Encode (msg ''PASS'' [pass] []) s")
  case (Pair r s1)
  with plain_ext_Encode [of s "msg ''PASS'' [pass] []"] have 1: "plain_ext s s1" by simp
  show ?thesis
  proof (cases r)
    case None
    with Pair plain_ext_trans [OF 1 plain_ext_Encode [of s1 "msg ''NICK'' [nick] []"]]
    show ?thesis by (simp add: login_def)
  next
    case (Some err)
    with Pair 1 show ?thesis by (simp add: login_def)
  qed
qed

lemma plain_ext_capReq: "plain_ext s (snd (capReq caps s))"
  by (simp add: capReq_def plain_ext_refl plain_ext_Encode)

lemma plain_ext_createIRCConn: "plain_ext s (snd (createIRCConn nick pass s))"
proof -
  let ?s0 = "emit Dial s"
  have 0: "plain_ext s ?s0" by (simp add: plain_ext_emit plain_def)
  obtain r1 s1 where l: "login nick pass ?s0 = (r1, s1)" by (cases "login nick pass ?s0")
  with plain_ext_login [of ?s0 nick pass] 0 have 1: "plain_ext s s1"
    by (auto intro: plain_ext_trans)
  obtain r2 s2 where c: "capReq [''twitch.tv/tags'', ''twitch.tv/commands''] s1 = (r2, s2)"
    by (cases "capReq [''twitch.tv/tags'', ''twitch.tv/commands''] s1")
  with plain_ext_capReq [of s1 "[''twitch.tv/tags'', ''twitch.tv/commands'']"] 1
  have 2: "plain_ext s s2"
    by (auto intro: plain_ext_trans)
  show ?thesis
    using 0 1 2 l c
    by (simp add: createIRCConn_def Let_def split: option.splits)
qed

lemma plain_ext_join: "plain_ext s (snd (snd (join chans s)))"
proof (cases "join_range 0 chans")
  case (Pair r chans')
  show ?thesis
  proof (cases r)
    case None
    with Pair plain_ext_Encode [of s "msg ''JOIN'' [Join chans' '',''] []"] show ?thesis
      by (auto simp: join_def plain_ext_refl split: prod.splits)
  next
    case (Some p)
    with Pair show ?thesis by (simp add: join_def plain_ext_refl)
  qed
qed

lemma plain_ext_subscribe_stage: "plain_ext s (snd (subscribe_stage c s))"
  by (simp add: subscribe_stage_def plain_ext_def log_Println_def log_Fatal_def emit_def
      plain_def Let_def split: option.splits)

lemma plain_ext_publish_notice: "plain_ext s (publish_notice c s)"
  by (simp add: publish_notice_def plain_ext_refl plain_ext_log)

lemma plain_ext_relay_step: "plain_ext s (snd (relay_step g c d s))"
  by (cases d)
    (auto simp: relay_step_def relay_message_def forward_def log_incoming_def
      restartProcess_def conn_Encode_def json_Marshal_def client_Publish_def
      plain_ext_def log_Println_def log_Fatal_def emit_def plain_def Let_def
      split: prod.splits option.splits)

lemma plain_ext_relay_loop: "plain_ext s (snd (relay_loop g c ds s))"
proof (induction ds arbitrary: s)
  case Nil
  show ?case by (simp add: plain_ext_refl)
next
  case (Cons d ds)
  obtain fl s1 where st: "relay_step g c d s = (fl, s1)" by (cases "relay_step g c d s")
  with plain_ext_relay_step [of s g c d] have 1: "plain_ext s s1" by simp
  show ?case
  proof (cases fl)
    case Continue
    with st plain_ext_trans [OF 1 Cons [of s1]] show ?thesis by simp
  next
    case (Stop out)
    with st 1 show ?thesis by simp
  qed
qed

lemma plain_ext_waiter: "plain_ext s (snd (waiter s))"
  by (simp add: waiter_def quit_def conn_Encode_def plain_ext_def log_Fatal_def emit_def
      plain_def Let_def split: prod.splits option.splits)

lemma plain_ext_callback: "plain_ext s (snd (callback g u s))"
  by (cases u)
    (auto simp: callback_def index_byte_def conn_Encode_def plain_ext_def log_Println_def
      emit_def plain_def Let_def split: prod.splits option.splits)

lemma tame_run:
  assumes "trace s = []"
  shows "tame (run_events g c decoded s)"
proof -
  obtain r1 s1 where c1: "createIRCConn (Nick c) (Pass c) s = (r1, s1)"
    by (cases "createIRCConn (Nick c) (Pass c) s")
  with plain_ext_createIRCConn [of s "Nick c" "Pass c"] have 1: "plain_ext s s1" by simp
  show ?thesis
  proof (cases r1)
    case (Some err)
    from plain_ext_trans [OF 1 plain_ext_log [of s1 "LogErr err"]] assms
    obtain xs where "trace (log_Println (LogErr err) s1) = xs" "list_all plain xs"
      by (auto simp: plain_ext_def)
    then have "run_events g c decoded s = xs @ [WgDone]"
      by (simp add: run_events_def run_io_def run_def c1 Some trace_emit)
    with \<open>list_all plain xs\<close> show ?thesis unfolding tame_def by blast
  next
    case None
    obtain jr chans s2 where j: "join (Publish_Channels c) s1 = (jr, chans, s2)"
      by (cases "join (Publish_Channels c) s1")
    with plain_ext_join [of s1 "Publish_Channels c"] 1 have 2: "plain_ext s s2"
      by (auto intro: plain_ext_trans)
    let ?c1 = "c\<lparr>Publish_Channels := chans\<rparr>"
    show ?thesis
    proof (cases jr)
      case (Inl p)
      from plain_ext_trans [OF 2 plain_ext_emit [of Close s2]] assms
      obtain xs where "trace (emit Close s2) = xs" "list_all plain xs"
        by (auto simp: plain_ext_def plain_def)
      then have "run_events g c decoded s = xs @ [WgDone, Exit 2]"
        by (simp add: run_events_def run_io_def run_def c1 None j Inl trace_emit)
      with \<open>list_all plain xs\<close> show ?thesis unfolding tame_def by blast
    next
      case (Inr e)
      show ?thesis
      proof (cases e)
        case (Some err)
        from plain_ext_trans [OF 2 plain_ext_Fatal [of s2 err]] assms
        obtain xs where "trace (log_Fatal err s2) = xs" "list_all plain xs"
          by (auto simp: plain_ext_def)
        then have "run_events g c decoded s = xs @ []"
          by (simp add: run_events_def run_io_def run_def c1 None j Inr Some)
        with \<open>list_all plain xs\<close> show ?thesis unfolding tame_def by blast
      next
        case None': None
        have 3: "plain_ext s (emit Go_waiter s2)"
          using plain_ext_trans [OF 2 plain_ext_emit [of Go_waiter s2]] by (simp add: plain_def)
        obtain fl s4 where sub: "subscribe_stage ?c1 (emit Go_waiter s2) = (fl, s4)"
          by (cases "subscribe_stage ?c1 (emit Go_waiter s2)")
        with plain_ext_subscribe_stage [of "emit Go_waiter s2" ?c1] 3 have 4: "plain_ext s s4"
          by (auto intro: plain_ext_trans)
        show ?thesis
        proof (cases fl)
          case (Stop out)
          from 4 assms obtain xs where "trace s4 = xs" "list_all plain xs"
            by (auto simp: plain_ext_def)
          then have "run_events g c decoded s = xs @ []"
            by (simp add: run_events_def run_io_def run_def c1 None j Inr None' sub Stop Let_def)
          with \<open>list_all plain xs\<close> show ?thesis unfolding tame_def by blast
        next
          case Continue
          obtain out s6 where loop: "relay_loop g ?c1 decoded (publish_notice ?c1 s4) = (out, s6)"
            by (cases "relay_loop g ?c1 decoded (publish_notice ?c1 s4)")
          from plain_ext_trans [OF 4 plain_ext_trans [OF plain_ext_publish_notice [of s4 ?c1]
                plain_ext_relay_loop [of "publish_notice ?c1 s4" g ?c1 decoded]]] loop
          have 6: "plain_ext s s6" by simp
          show ?thesis
          proof (cases "out = Returned")
            case True
            from plain_ext_trans [OF 6 plain_ext_emit [of Close s6]] assms
            obtain xs where "trace (emit Close s6) = xs" "list_all plain xs"
              by (auto simp: plain_ext_def plain_def)
            then have "run_events g c decoded s = xs @ [WgDone]"
              by (simp add: run_events_def run_io_def run_def c1 None j Inr None' sub Continue
                  loop True Let_def trace_emit)
            with \<open>list_all plain xs\<close> show ?thesis unfolding tame_def by blast
          next
            case False
            from 6 assms obtain xs where "trace s6 = xs" "list_all plain xs"
              by (auto simp: plain_ext_def)
            then have "run_events g c decoded s = xs @ []"
              using False
              by (cases out)
                (simp_all add: run_events_def run_io_def run_def c1 None j Inr None' sub Continue
                  loop Let_def)
            with \<open>list_all plain xs\<close> show ?thesis unfolding tame_def by blast
          qed
        qed
      qed
    qed
  qed
qed

lemma bal_append: "bal (xs @ ys) = bal xs + bal ys"
  by (simp add: bal_def)

lemma plain_bal: "list_all plain es \<Longrightarrow> bal es = 0"
  by (induction es) (simp_all add: bal_def plain_def)

lemma plain_no_WgDone: "list_all plain es \<Longrightarrow> WgDone \<notin> set es"
  by (induction es) (auto simp: plain_def)

lemma plain_no_Exit0: "list_all plain es \<Longrightarrow> Exit 0 \<notin> set es"
  by (induction es) (auto simp: plain_def)

lemma plain_prefix: "list_all plain (pre @ rest) \<Longrightarrow> list_all plain pre"
  by simp

lemma tame_no_Exit0: "tame es \<Longrightarrow> Exit 0 \<notin> set es"
  by (auto simp: tame_def dest: plain_no_Exit0)

lemma tame_prefix_bal:
  assumes "tame es" and "pre @ rest = es"
  shows "bal pre = (if WgDone \<in> set pre then - 1 else 0)"
proof -
  from assms(1) obtain xs tl where es: "es = xs @ tl" and xs: "list_all plain xs"
    and tl: "tl = [] \<or> tl = [WgDone] \<or> tl = [WgDone, Exit 2]"
    by (auto simp: tame_def)
  from assms(2) es have "pre @ rest = xs @ tl" by simp
  then consider us where "pre = xs @ us" "us @ rest = tl" | us where "pre @ us = xs"
    by (auto simp: append_eq_append_conv2)
  then show ?thesis
  proof cases
    case 1
    from tl 1(2) have "us = [] \<or> us = [WgDone] \<or> us = [WgDone, Exit 2]"
      by (auto simp: append_eq_Cons_conv Cons_eq_append_conv)
    with 1(1) xs plain_bal [OF xs] plain_no_WgDone [OF xs] show ?thesis
      by (auto simp: bal_append) (simp_all add: bal_def)
  next
    case 2
    with xs have p: "list_all plain pre" by auto
    with plain_bal [OF p] plain_no_WgDone [OF p] show ?thesis by simp
  qed
qed

lemma events_by_append: "events_by t (h1 @ h2) = events_by t h1 @ events_by t h2"
  by (simp add: events_by_def)

lemma events_by_take_prefix: "\<exists>rest. events_by t (take i h) @ rest = events_by t h"
proof -
  have "events_by t (take i h @ drop i h) = events_by t (take i h) @ events_by t (drop i h)"
    by (rule events_by_append)
  then show ?thesis by auto
qed

lemma prefix_reaching_last:
  assumes "pre @ rest = A @ [w, d, z]" and "z \<in> set pre" and "z \<notin> set A"
    and "z \<noteq> w" and "z \<noteq> d"
  shows "pre = A @ [w, d, z]"
proof -
  from assms(1) consider us where "pre = A @ us" "us @ rest = [w, d, z]"
    | us where "pre @ us = A"
    by (auto simp: append_eq_append_conv2)
  then show ?thesis
  proof cases
    case 1
    from 1(1) assms(2,3) have z: "z \<in> set us" by auto
    from 1(2) have "us = [] \<or> us = [w] \<or> us = [w, d] \<or> us = [w, d, z]"
      by (auto simp: append_eq_Cons_conv)
    with z assms(4,5) have "us = [w, d, z]" by auto
    with 1(1) show ?thesis by simp
  next
    case 2
    with assms(2) have "z \<in> set A" by auto
    with assms(3) show ?thesis by simp
  qed
qed

lemma split_at_unique:
  assumes "X @ w # Y = A @ w # Z" and "w \<notin> set A" and "w \<notin> set Z"
  shows "X = A"
  using assms append_Cons_eq_iff [of w A Z X Y] by auto

lemma main_thread_shape:
  assumes "validate_all 0 configs = []"
  shows "main_thread configs None =
     (MqttConnect # WgAdd (length configs) # map Go_run [0..<length configs] @
        [AwaitInterrupt, CloseStop]) @ WgWait # [Disconnect, Exit 0]"
  using assms by (simp add: main_thread_def)

lemma bal_main_before_wait:
  "bal (MqttConnect # WgAdd n # map Go_run [0..<n] @ [AwaitInterrupt, CloseStop]) = int n"
proof -
  have "sum_list (map wg_delta (map Go_run ks)) = 0" for ks
    by (induction ks) simp_all
  then show ?thesis by (simp add: bal_def)
qed

text \<open>
  A process that has exited with status 0 has seen every task run its deferred
  \<^verbatim>\<open>wg.Done()\<close>: the exit is \<^verbatim>\<open>main\<close>'s, \<^verbatim>\<open>main\<close> passed \<^verbatim>\<open>wg.Wait()\<close> before it,
  the counter was then at zero, and it had been raised by the number of tasks.
\<close>

lemma exit_zero_after_every_task:
  assumes valid: "validate_all 0 configs = []"
    and main: "t_todo (ths ! 0) = main_thread configs None"
    and len: "length configs < length ths"
    and relays: "\<forall>k < length configs. tame (t_todo (ths ! Suc k))"
    and others: "\<forall>t. length configs < t \<and> t < length ths \<longrightarrow> list_all plain (t_todo (ths ! t))"
    and sched: "exec_schedule (boot ths) ts = Some p"
    and exit0: "status p = Exited 0"
  shows "\<forall>k < length configs. WgDone \<in> set (events_by (Suc k) (history p))"
proof -
  let ?h = "history p" and ?n = "length configs" and ?N = "length ths"
  let ?A = "MqttConnect # WgAdd ?n # map Go_run [0..<?n] @ [AwaitInterrupt, CloseStop]"
  from reach_inv_schedule [OF reach_inv_boot sched]
  have wgi: "wg_inv p" and ord: "order_inv ths p" and exi: "exit_inv ?N p"
    by (simp_all add: reach_inv_def)
  from ord have todo: "\<And>t. t < ?N \<Longrightarrow> events_by t ?h @ t_todo (threads p ! t) = t_todo (ths ! t)"
    by (simp add: order_inv_def)
  from exi have bound: "\<forall>x \<in> set ?h. fst x < ?N" by (simp add: exit_inv_def)
  \<comment> \<open>the exit with status 0 is main's\<close>
  from exi exit0 obtain x where x: "x \<in> set ?h" "fst (snd x) = Exit 0"
    by (auto simp: exit_inv_def)
  with bound have xN: "fst x < ?N" by simp
  from x have in_ev: "Exit 0 \<in> set (events_by (fst x) ?h)"
    by (force simp: events_by_def)
  with todo [OF xN] have in_todo: "Exit 0 \<in> set (t_todo (ths ! fst x))"
    by (metis Un_iff set_append)
  have x0: "fst x = 0"
  proof (rule ccontr)
    assume "fst x \<noteq> 0"
    then obtain k where k: "fst x = Suc k" by (cases "fst x") auto
    show False
    proof (cases "k < ?n")
      case True
      with relays k tame_no_Exit0 in_todo show False by auto
    next
      case False
      with k xN others have "list_all plain (t_todo (ths ! fst x))" by simp
      from plain_no_Exit0 [OF this] in_todo show False by simp
    qed
  qed
  \<comment> \<open>so main has performed all of its events\<close>
  from len have N0: "0 < ?N" by (cases ths) simp_all
  note L = main_thread_shape [OF valid]
  from todo [OF N0] main L
  have main_eq: "events_by 0 ?h @ t_todo (threads p ! 0) = ?A @ WgWait # [Disconnect, Exit 0]"
    by simp
  have notA: "WgWait \<notin> set ?A" "Exit 0 \<notin> set ?A" by auto
  from in_ev x0 have "Exit 0 \<in> set (events_by 0 ?h)" by simp
  from prefix_reaching_last [OF _ this notA(2)] main_eq
  have "events_by 0 ?h = ?A @ [WgWait, Disconnect, Exit 0]" by simp
  then have "WgWait \<in> set (events_by 0 ?h)" by simp
  then obtain y where y: "y \<in> set ?h" "fst y = 0" "fst (snd y) = WgWait"
    by (auto simp: events_by_def)
  then obtain i where i: "i < length ?h" "?h ! i = y"
    by (auto simp: in_set_conv_nth)
  \<comment> \<open>when main passed the wait, the counter was at zero\<close>
  from wgi i y have zero: "wg_balance (take i ?h) = 0"
    by (simp add: wg_inv_def)
  have split: "?h = take i ?h @ y # drop (Suc i) ?h"
    using i id_take_nth_drop [of i ?h] by simp
  \<comment> \<open>main's events before the wait\<close>
  have "events_by 0 ?h = events_by 0 (take i ?h) @ WgWait # events_by 0 (drop (Suc i) ?h)"
    using y by (subst split) (simp add: events_by_def)
  with main_eq have eq2: "events_by 0 (take i ?h) @ WgWait #
      (events_by 0 (drop (Suc i) ?h) @ t_todo (threads p ! 0)) = ?A @ WgWait # [Disconnect, Exit 0]"
    by simp
  have mainA: "events_by 0 (take i ?h) = ?A"
    by (rule split_at_unique [OF eq2 notA(1)]) simp
  \<comment> \<open>the counter, goroutine by goroutine\<close>
  from bound have bound_i: "\<forall>x \<in> set (take i ?h). fst x < ?N"
    by (meson in_set_takeD)
  let ?b = "\<lambda>t. bal (events_by t (take i ?h))"
  from wg_balance_by_thread [OF bound_i] zero have "(\<Sum>t<?N. ?b t) = 0" by simp
  moreover have "{..<?N} = {0..<Suc ?n} \<union> {Suc ?n..<?N}" using len by auto
  ultimately have "(\<Sum>t = 0..<Suc ?n. ?b t) + (\<Sum>t = Suc ?n..<?N. ?b t) = 0"
    by (simp add: sum.union_disjoint)
  moreover have "(\<Sum>t = Suc ?n..<?N. ?b t) = 0"
  proof (rule sum.neutral, rule ballI)
    fix t assume t: "t \<in> {Suc ?n..<?N}"
    with others have pl: "list_all plain (t_todo (ths ! t))" by simp
    from t have tN: "t < ?N" by simp
    from events_by_take_prefix [of t i ?h] todo [OF tN]
    obtain rest where "events_by t (take i ?h) @ rest = t_todo (ths ! t)"
      by (metis append.assoc)
    with pl have "list_all plain (events_by t (take i ?h))"
      by (metis plain_prefix)
    then show "?b t = 0" by (rule plain_bal)
  qed
  moreover have "(\<Sum>t = 0..<Suc ?n. ?b t) = ?b 0 + (\<Sum>k<?n. ?b (Suc k))"
    by (simp only: atLeast0LessThan sum.lessThan_Suc_shift)
  moreover have "?b 0 = int ?n"
    by (simp add: mainA bal_main_before_wait)
  ultimately have total: "(\<Sum>k<?n. ?b (Suc k) + 1) = 0"
    by (simp add: sum.distrib)
  have each: "?b (Suc k) = (if WgDone \<in> set (events_by (Suc k) (take i ?h)) then - 1 else 0)"
    if "k < ?n" for k
  proof -
    from that len have tN: "Suc k < ?N" by simp
    from events_by_take_prefix [of "Suc k" i ?h] todo [OF tN]
    obtain rest where pre: "events_by (Suc k) (take i ?h) @ rest = t_todo (ths ! Suc k)"
      by (metis append.assoc)
    from relays that have "tame (t_todo (ths ! Suc k))" by simp
    from tame_prefix_bal [OF this pre] show ?thesis .
  qed
  then have nonneg: "\<forall>k \<in> {..<?n}. 0 \<le> ?b (Suc k) + 1" by simp
  from total have "\<forall>k \<in> {..<?n}. ?b (Suc k) + 1 = 0"
    using sum_nonneg_eq_0_iff [OF finite_lessThan, of ?n "\<lambda>k. ?b (Suc k) + 1"] nonneg
    by simp
  with each have done_i: "\<forall>k < ?n. WgDone \<in> set (events_by (Suc k) (take i ?h))"
    by (metis add.commute add_cancel_right_right lessThan_iff zero_neq_one)
  show ?thesis
  proof (intro allI impI)
    fix k assume "k < ?n"
    with done_i have "WgDone \<in> set (events_by (Suc k) (take i ?h))" by simp
    moreover from events_by_take_prefix [of "Suc k" i ?h]
    have "set (events_by (Suc k) (take i ?h)) \<subseteq> set (events_by (Suc k) ?h)"
      by (metis Un_upper1 set_append)
    ultimately show "WgDone \<in> set (events_by (Suc k) ?h)" by auto
  qed
qed

lemma plain_waiter: "trace s = [] \<Longrightarrow> list_all plain (trace (snd (waiter s)))"
  using plain_ext_waiter [of s] by (auto simp: plain_ext_def)

lemma plain_callback: "trace s = [] \<Longrightarrow> list_all plain (trace (snd (callback g u s)))"
  using plain_ext_callback [of s g u] by (auto simp: plain_ext_def)

lemma task_threads_tame:
  assumes "task_threads ths configs"
  shows "\<forall>k < length configs. tame (t_todo (ths ! Suc k))"
    and "\<forall>t. length configs < t \<and> t < length ths \<longrightarrow> list_all plain (t_todo (ths ! t))"
proof -
  from assms show "\<forall>k < length configs. tame (t_todo (ths ! Suc k))"
    unfolding task_threads_def by (metis tame_run)
  from assms show "\<forall>t. length configs < t \<and> t < length ths \<longrightarrow> list_all plain (t_todo (ths ! t))"
    unfolding task_threads_def by (metis plain_waiter plain_callback)
qed

lemma task_threads_quit_ok: "task_threads (threads proc_quit_ok) [cfg1]"
proof -
  have "\<exists>g c decoded s. trace s = [] \<and>
      t_todo (threads proc_quit_ok ! Suc 0) = run_events g c decoded s"
    by (rule exI [of _ g0], rule exI [of _ cfg1], rule exI [of _ "[Inl EOF]"], rule exI [of _ io0])
      (simp add: proc_quit_ok_def boot_def relay_th_def run_events_def run_io_def io0_def)
  moreover have "\<exists>s. trace s = [] \<and> t_todo (threads proc_quit_ok ! 2) = trace (snd (waiter s))"
    by (rule exI [of _ io0]) (simp add: proc_quit_ok_def boot_def waiter_th_def io0_def)
  moreover have "\<And>t::nat. 1 < t \<and> t < 3 \<Longrightarrow> t = 2" by auto
  ultimately show ?thesis
    unfolding task_threads_def
    by (auto simp: proc_quit_ok_def boot_def main_th_def)
qed

section \<open>Shutdown\<close>

lemma main_thread_ok:
  "validate_all 0 configs = [] \<Longrightarrow>
   main_thread configs None =
     MqttConnect # WgAdd (length configs) # map Go_run [0..<length configs] @
     [AwaitInterrupt, CloseStop, WgWait, Disconnect, Exit 0]"
  by (simp add: main_thread_def)

text \<open>
  The claim C7 as the spec states it, that a failed quit write is only logged and the
  process then exits with status zero once the relay loops are done, fails. One
  connection is running and waits for input; the interrupt arrives and \<^verbatim>\<open>main\<close> closes
  \<^verbatim>\<open>stop\<close>; the waiter takes the lock and writes \<^verbatim>\<open>QUIT\<close>; the write fails. The waiter
  calls \<^verbatim>\<open>log.Fatal\<close>: the process exits with status 1, holding the lock, while the
  relay loop has not completed (the wait group still counts 1).
\<close>

theorem quit_failure_exits_1:
  "map_option (\<lambda>p. (status p, wg p, drop 12 (history p)))
     (exec_schedule proc_quit_fails [0,0,0, 1,1,1,1,1,1,1, 0,0, 2,2,2,2,2]) =
   Some (Exited 1, 1,
     [(2, AwaitStop, None), (2, Lock, None),
      (2, Encode \<lparr>Raw = [], Command = ''QUIT'', Params = [], Trailing = []\<rparr>, Some 2),
      (2, Log (LogErr (Other ''write: broken pipe'')), Some 2),
      (2, Exit 1, Some 2)])"
  by code_simp

text \<open>
  Claim C7, amended. Once \<^verbatim>\<open>stop\<close> is closed, a connection's waiter takes the
  connection's lock and attempts exactly one quit message, under the lock. If the write
  succeeds the waiter unlocks and returns; if it fails the error is logged and the
  process exits at once with status 1, with no second attempt. When every config passed
  validation and the broker connection was made, \<^verbatim>\<open>main\<close> waits for the interrupt,
  closes \<^verbatim>\<open>stop\<close>, waits for the wait group, disconnects and exits with status 0; and
  whenever the process has exited with status 0, every connection's task has run its
  \<^verbatim>\<open>wg.Done()\<close>, that is, has ended.
\<close>

theorem quit_on_shutdown:
  "since s (snd (waiter s)) =
     [AwaitStop, Lock, Encode \<lparr>Raw = [], Command = ''QUIT'', Params = [], Trailing = []\<rparr>] @
       (case fst (pop (encode_r s)) of None \<Rightarrow> [Unlock] | Some err \<Rightarrow> [Log (LogErr err), Exit 1]) \<and>
   fst (waiter s) = (case fst (pop (encode_r s)) of None \<Rightarrow> Returned | Some err \<Rightarrow> Fatal) \<and>
   writes_locked False (since s (snd (waiter s))) \<and>
   (validate_all 0 configs = [] \<longrightarrow>
      main_thread configs None =
        MqttConnect # WgAdd (length configs) # map Go_run [0..<length configs] @
        [AwaitInterrupt, CloseStop, WgWait, Disconnect, Exit 0]) \<and>
   (validate_all 0 configs = [] \<and> task_threads ths configs \<and>
    exec_schedule (boot ths) ts = Some p \<and> status p = Exited 0 \<longrightarrow>
      (\<forall>k < length configs. WgDone \<in> set (events_by (Suc k) (history p))))"
proof -
  have out: "fst (waiter s) = (case fst (pop (encode_r s)) of None \<Rightarrow> Returned | Some err \<Rightarrow> Fatal)"
    by (auto simp: waiter_def quit_def conn_Encode_def emit_def Let_def
        split: prod.splits option.splits)
  have all_done: "\<forall>k < length configs. WgDone \<in> set (events_by (Suc k) (history p))"
    if "validate_all 0 configs = [] \<and> task_threads ths configs \<and>
        exec_schedule (boot ths) ts = Some p \<and> status p = Exited 0"
  proof -
    from that have v: "validate_all 0 configs = []" and tt: "task_threads ths configs"
      and sch: "exec_schedule (boot ths) ts = Some p" and ex: "status p = Exited 0"
      by simp_all
    from tt have m: "t_todo (ths ! 0) = main_thread configs None"
      and len: "length configs < length ths"
      by (simp_all add: task_threads_def)
    from exit_zero_after_every_task [OF v m len task_threads_tame [OF tt] sch ex]
    show ?thesis .
  qed
  from out all_done show ?thesis
    using waiter_writes_locked [of s] main_thread_ok [of configs]
    by (simp add: since_trace [OF waiter_trace])
qed

theorem quit_on_shutdown_witness:
  "validate_all 0 [cfg1] = [] \<and>
   main_thread [cfg1] None =
     [MqttConnect, WgAdd 1, Go_run 0, AwaitInterrupt, CloseStop, WgWait, Disconnect, Exit 0] \<and>
   since io0 (snd (waiter io0)) =
     [AwaitStop, Lock, Encode \<lparr>Raw = [], Command = ''QUIT'', Params = [], Trailing = []\<rparr>, Unlock] \<and>
   task_threads (threads proc_quit_ok) [cfg1] \<and>
   (\<exists>p. exec_schedule proc_quit_ok [0,0,0, 1,1,1,1,1,1,1, 0,0, 2,2,2,2, 1,1, 0,0,0] = Some p \<and>
        status p = Exited 0 \<and>
        drop 10 (history p) =
          [(0, AwaitInterrupt, None), (0, CloseStop, None),
           (2, AwaitStop, None), (2, Lock, None),
           (2, Encode \<lparr>Raw = [], Command = ''QUIT'', Params = [], Trailing = []\<rparr>, Some 2),
           (2, Unlock, Some 2),
           (1, Close, None), (1, WgDone, None),
           (0, WgWait, None), (0, Disconnect, None), (0, Exit 0, None)] \<and>
        WgDone \<in> set (events_by 1 (history p)))"
proof -
  have v: "validate_all 0 [cfg1] = []"
    by (simp add: validate_def HasPrefix_def cfg1_def)
  have sch: "map_option (\<lambda>p. (status p, drop 10 (history p)))
     (exec_schedule proc_quit_ok [0,0,0, 1,1,1,1,1,1,1, 0,0, 2,2,2,2, 1,1, 0,0,0]) =
   Some (Exited 0,
     [(0, AwaitInterrupt, None), (0, CloseStop, None),
      (2, AwaitStop, None), (2, Lock, None),
      (2, Encode \<lparr>Raw = [], Command = ''QUIT'', Params = [], Trailing = []\<rparr>, Some 2),
      (2, Unlock, Some 2),
      (1, Close, None), (1, WgDone, None),
      (0, WgWait, None), (0, Disconnect, None), (0, Exit 0, None)])"
    by code_simp
  then obtain p where p: "exec_schedule proc_quit_ok [0,0,0, 1,1,1,1,1,1,1, 0,0, 2,2,2,2, 1,1, 0,0,0] = Some p"
    and st: "status p = Exited 0"
    and h: "drop 10 (history p) =
          [(0, AwaitInterrupt, None), (0, CloseStop, None),
           (2, AwaitStop, None), (2, Lock, None),
           (2, Encode \<lparr>Raw = [], Command = ''QUIT'', Params = [], Trailing = []\<rparr>, Some 2),
           (2, Unlock, Some 2),
           (1, Close, None), (1, WgDone, None),
           (0, WgWait, None), (0, Disconnect, None), (0, Exit 0, None)]"
    by auto
  have b: "boot (threads proc_quit_ok) = proc_quit_ok"
    by (simp add: proc_quit_ok_def boot_def)
  note q = quit_on_shutdown [of io0 "[cfg1]" "threads proc_quit_ok"
      "[0,0,0, 1,1,1,1,1,1,1, 0,0, 2,2,2,2, 1,1, 0,0,0]" p]
  from q v task_threads_quit_ok p st
  have d: "WgDone \<in> set (events_by 1 (history p))"
    by (simp add: b)
  from q v have m: "main_thread [cfg1] None =
     [MqttConnect, WgAdd 1, Go_run 0, AwaitInterrupt, CloseStop, WgWait, Disconnect, Exit 0]"
    by (simp add: upt_rec)
  from q have w: "since io0 (snd (waiter io0)) =
     [AwaitStop, Lock, Encode \<lparr>Raw = [], Command = ''QUIT'', Params = [], Trailing = []\<rparr>, Unlock]"
    by (simp add: io0_def pop_def)
  from v m w task_threads_quit_ok p st h d show ?thesis by blast
qed

section \<open>The reconnect directive\<close>

lemma relay_step_reconnect:
  assumes "Command m = ''RECONNECT''"
    and "Publish_Topic c = [] \<or> fst (pop (marshal_r s)) = None"
  shows "fst (relay_step g c (Inr m) s) =
       Stop (case exec_r s of None \<Rightarrow> Replaced | Some err \<Rightarrow> Fatal) \<and>
     trace (snd (relay_step g c (Inr m) s)) =
       trace s @ [Log (LogIn (Raw m))] @
       (if Publish_Topic c = [] then []
        else Publish (Publish_Topic c) (Publish_QOS c) m #
             (case fst (pop (publish_r s)) of None \<Rightarrow> [] | Some err \<Rightarrow> [Log (LogErr err)])) @
       [Log (LogText ''server sent RECONNECT, restarting process''), Sleep,
        Exec (argv0 g) (argv g) (envv g) (exec_r s)] @
       (case exec_r s of None \<Rightarrow> [] | Some err \<Rightarrow> [Log (LogErr err), Exit 1])"
  using assms
  by (auto simp: relay_step_def relay_message_def forward_def log_incoming_def restartProcess_def
      json_Marshal_def client_Publish_def emit_def log_Println_def log_Fatal_def Let_def
      split: prod.splits option.splits)

text \<open>With a publish topic, a \<^verbatim>\<open>RECONNECT\<close> whose \<^verbatim>\<open>json.Marshal\<close> fails takes the
  \<^verbatim>\<open>continue\<close> of the marshal error: the loop goes on and does not restart.\<close>

lemma marshal_error_skips_restart:
  "relay_step g0 cfg0 (Inr reconnect0) (io0\<lparr>marshal_r := [Some (Other ''json: error'')]\<rparr>) =
     (Continue, io0\<lparr>trace := [Log (LogIn '':tmi.twitch.tv RECONNECT''),
                               Log (LogErr (Other ''json: error''))]\<rparr>)"
  by (simp add: model_defs example_defs Let_def)

text \<open>
  The claim C8 as the spec states it, that no message is processed on any connection
  after the directive, fails. Two connections are running. The first decodes
  \<^verbatim>\<open>RECONNECT\<close>, publishes it and sleeps; \<^verbatim>\<open>time.Sleep\<close> suspends that goroutine only,
  and the second connection decodes and publishes a chat line before the first one
  calls \<^verbatim>\<open>syscall.Exec\<close>.
\<close>

theorem message_processed_after_reconnect:
  "map_option (\<lambda>p. (status p, drop 22 (history p)))
     (exec_schedule proc_reconnect
        [0,0,0,0, 1,1,1,1,1,1,1,1,1, 2,2,2,2,2,2,2,2,2, 1,1,1,1, 2, 1]) =
   Some (Image_replaced,
     [(1, Log (LogIn '':tmi.twitch.tv RECONNECT''), None),
      (1, Publish ''twitch/in'' 1 reconnect0, None),
      (1, Log (LogText ''server sent RECONNECT, restarting process''), None),
      (1, Sleep, None),
      (2, Publish ''twitch/in'' 1 privmsg0, None),
      (1, Exec ''./twitchmqtt'' [''./twitchmqtt''] [''MQTT_BROKER=tcp://localhost:1883''] None, None)])"
  by code_simp

text \<open>
  Claim C8, amended. When a running task decodes a message with the command
  \<^verbatim>\<open>RECONNECT\<close>, and no publish topic is configured or the serialisation of the message
  succeeds, then after the normal handling of the message (the log line and, with a
  publish topic, one publish) the task logs the restart, sleeps one second and calls
  \<^verbatim>\<open>syscall.Exec\<close> once, with \<^verbatim>\<open>argv0\<close>, \<^verbatim>\<open>argv\<close> and \<^verbatim>\<open>envv\<close> as they were set when
  the program started. If the call fails the error is logged and the process exits with
  status 1. This task processes no later message: its result does not depend on the
  input after the directive. Nothing is said of the other goroutines during the sleep.
\<close>

theorem reconnect_restarts:
  assumes "running g c pre s" and "Command m = ''RECONNECT''"
    and "Publish_Topic c = [] \<or> fst (pop (marshal_r (run_io g c pre s))) = None"
  shows "run g c (pre @ Inr m # ds) s = run g c (pre @ [Inr m]) s \<and>
     run_outcome g c (pre @ [Inr m]) s =
       (case exec_r (run_io g c pre s) of None \<Rightarrow> Replaced | Some err \<Rightarrow> Fatal) \<and>
     run_events g c (pre @ [Inr m]) s =
       run_events g c pre s @ [Log (LogIn (Raw m))] @
       (if Publish_Topic c = [] then []
        else Publish (Publish_Topic c) (Publish_QOS c) m #
             (case fst (pop (publish_r (run_io g c pre s))) of
                None \<Rightarrow> [] | Some err \<Rightarrow> [Log (LogErr err)])) @
       [Log (LogText ''server sent RECONNECT, restarting process''), Sleep,
        Exec (argv0 g) (argv g) (envv g) (exec_r (run_io g c pre s))] @
       (case exec_r (run_io g c pre s) of None \<Rightarrow> [] | Some err \<Rightarrow> [Log (LogErr err), Exit 1])"
proof -
  let ?c1 = "run_config g c pre s" and ?s1 = "run_io g c pre s"
  from run_running_config [OF assms(1)] obtain chans where
    c1: "?c1 = c\<lparr>Publish_Channels := chans\<rparr>" ..
  then have topic: "Publish_Topic ?c1 = Publish_Topic c" and qos: "Publish_QOS ?c1 = Publish_QOS c"
    by simp_all
  from assms(3) topic have m: "Publish_Topic ?c1 = [] \<or> fst (pop (marshal_r ?s1)) = None"
    by simp
  obtain fl s2 where st: "relay_step g ?c1 (Inr m) ?s1 = (fl, s2)"
    by (cases "relay_step g ?c1 (Inr m) ?s1")
  from relay_step_reconnect [OF assms(2) m, of g] st
  have fl: "fl = Stop (case exec_r ?s1 of None \<Rightarrow> Replaced | Some err \<Rightarrow> Fatal)"
    and tr: "trace s2 =
       trace ?s1 @ [Log (LogIn (Raw m))] @
       (if Publish_Topic c = [] then []
        else Publish (Publish_Topic c) (Publish_QOS c) m #
             (case fst (pop (publish_r ?s1)) of None \<Rightarrow> [] | Some err \<Rightarrow> [Log (LogErr err)])) @
       [Log (LogText ''server sent RECONNECT, restarting process''), Sleep,
        Exec (argv0 g) (argv g) (envv g) (exec_r ?s1)] @
       (case exec_r ?s1 of None \<Rightarrow> [] | Some err \<Rightarrow> [Log (LogErr err), Exit 1])"
    by (simp_all add: topic qos)
  have r: "\<And>ds. run g c (pre @ Inr m # ds) s =
      ((case exec_r ?s1 of None \<Rightarrow> Replaced | Some err \<Rightarrow> Fatal), ?c1, s2)"
    by (simp add: run_next [OF assms(1)] st fl split: option.splits)
  show ?thesis
    using tr by (simp add: r run_outcome_def run_events_def run_io_def)
qed

theorem reconnect_restarts_witness:
  "running g0 cfg0 [] io0 \<and> Command reconnect0 = ''RECONNECT'' \<and>
   fst (pop (marshal_r (run_io g0 cfg0 [] io0))) = None \<and>
   run g0 cfg0 [Inr reconnect0, Inr privmsg0, Inr ping0] io0 = run g0 cfg0 [Inr reconnect0] io0 \<and>
   run_outcome g0 cfg0 [Inr reconnect0] io0 = Replaced \<and>
   run_events g0 cfg0 [Inr reconnect0] io0 =
     run_events g0 cfg0 [] io0 @
     [Log (LogIn '':tmi.twitch.tv RECONNECT''), Publish ''twitch/in'' 1 reconnect0,
      Log (LogText ''server sent RECONNECT, restarting process''), Sleep,
      Exec ''./twitchmqtt'' [''./twitchmqtt''] [''MQTT_BROKER=tcp://localhost:1883''] None]"
proof -
  have io: "marshal_r (run_io g0 cfg0 [] io0) = []" "publish_r (run_io g0 cfg0 [] io0) = []"
    "exec_r (run_io g0 cfg0 [] io0) = None"
    by (simp_all add: model_defs example_defs join_range.simps Let_def)
  have m: "Command reconnect0 = ''RECONNECT''" by (simp add: reconnect0_def)
  have ok: "Publish_Topic cfg0 = [] \<or> fst (pop (marshal_r (run_io g0 cfg0 [] io0))) = None"
    by (simp add: io pop_def)
  from reconnect_restarts [OF running_cfg0 m ok, of "[Inr privmsg0, Inr ping0]"]
  show ?thesis
    using running_cfg0 m
    by (simp add: io pop_def) (simp add: g0_def cfg0_def reconnect0_def)
qed

section \<open>A write inside another goroutine's critical section\<close>

text \<open>
  Claim C1 says that every write to the session in the running state, the \<^verbatim>\<open>PONG\<close>
  of the read loop included, is made under the connection's lock, so that no two writes
  overlap. The code takes the lock in the callback and in the waiter and not in the
  read loop. Here one connection is running and has subscribed; the broker delivers
  \<^verbatim>\<open>{"channel":"foo","message":"hi"}\<close> and the callback (goroutine 2) takes the lock;
  before the callback writes its \<^verbatim>\<open>PRIVMSG\<close>, the read loop (goroutine 1) decodes a
  \<^verbatim>\<open>PING\<close> and writes the \<^verbatim>\<open>PONG\<close>: a write to the session made while another
  goroutine holds the lock, inside that goroutine's critical section.
\<close>

theorem pong_written_inside_callback_section:
  "map_option (\<lambda>p. overlapping_writes (history p))
     (exec_schedule proc_ping_during_delivery [0,0,0, 1,1,1,1,1,1,1, 2, 1, 2, 2]) =
   Some [(1, \<lparr>Raw = ''PING :tmi.twitch.tv'', Command = ''PONG'', Params = [],
              Trailing = ''tmi.twitch.tv''\<rparr>, 2)]"
  by code_simp

end
